theory Spec2Isabelle
  imports Complex_Main
begin

text \<open>
  A shallow embedding of \<open>app.js\<close>, the password checker: the character classes and
  the base score, the entropy estimate, the six pattern predicates, the flags and the
  adjusted score, the lookup in the breach range service, and the input handler with its
  two points of suspension. The operations of the host that the lookup needs beyond ASCII
  letters and small integers are parameters. The definitions come first, in the order of the source; the
  properties follow.
\<close>

section \<open>Strings\<close>

text \<open>
  A JavaScript string is a sequence of UTF-16 code units; \<open>length\<close>, \<open>slice\<close>,
  \<open>substr\<close>, \<open>charCodeAt\<close> and a regular expression without the \<open>u\<close> flag all work
  on code units. A code unit is modelled by its number. String literals of the source are
  ASCII and written \<open>str ''...''\<close>.
\<close>

type_synonym jsstring = "nat list"

definition str :: "string \<Rightarrow> jsstring" where
  "str cs = map of_char cs"

text \<open>The character classes of the regular expressions in \<open>app.js\<close>.\<close>

definition isLower :: "nat \<Rightarrow> bool" where
  \<comment> \<open>\<open>[a-z]\<close>\<close>
  "isLower c = (97 \<le> c \<and> c \<le> 122)"

definition isUpper :: "nat \<Rightarrow> bool" where
  \<comment> \<open>\<open>[A-Z]\<close>\<close>
  "isUpper c = (65 \<le> c \<and> c \<le> 90)"

definition isDigit :: "nat \<Rightarrow> bool" where
  \<comment> \<open>\<open>[0-9]\<close> and \<open>\d\<close>\<close>
  "isDigit c = (48 \<le> c \<and> c \<le> 57)"

definition isSymbol :: "nat \<Rightarrow> bool" where
  \<comment> \<open>\<open>[^A-Za-z0-9]\<close>\<close>
  "isSymbol c = (\<not> (isUpper c \<or> isLower c \<or> isDigit c))"

definition test :: "(nat \<Rightarrow> bool) \<Rightarrow> jsstring \<Rightarrow> bool" where
  \<comment> \<open>\<open>/[cls]/.test(s)\<close> for a one-character class: some code unit of \<open>s\<close> is in the class\<close>
  "test cls s = list_ex cls s"

section \<open>Character set and base score\<close>

definition charsetSize :: "jsstring \<Rightarrow> nat" where
  "charsetSize s =
     (let size0 = 0;
          size1 = (if test isLower s then size0 + 26 else size0);
          size2 = (if test isUpper s then size1 + 26 else size1);
          size3 = (if test isDigit s then size2 + 10 else size2);
          size4 = (if test isSymbol s then size3 + 32 else size3)
      in size4)"

definition computeScore :: "jsstring \<Rightarrow> int" where
  "computeScore p =
     (let score0 = 0;
          score1 = (if length p \<ge> 8 then score0 + 1 else score0);
          score2 = (if test isLower p then score1 + 1 else score1);
          score3 = (if test isUpper p then score2 + 1 else score2);
          score4 = (if test isDigit p then score3 + 1 else score3);
          score5 = (if test isSymbol p then score4 + 1 else score4)
      in score5)"

section \<open>Entropy estimate\<close>

text \<open>
  Lines 58--59 of \<open>onInput\<close>: \<open>charset ? Math.log2(charset) * value.length : 0\<close>.
  The source computes in IEEE doubles; the embedding uses the real numbers, so the value
  below is the number the double approximates.
\<close>

definition estimateEntropy :: "jsstring \<Rightarrow> real" where
  "estimateEntropy v =
     (let charset = charsetSize v
      in if charset \<noteq> 0 then log 2 (real charset) * real (length v) else 0)"

section \<open>Pattern detection\<close>

subsection \<open>String operations of the host language\<close>

definition lowerUnit :: "nat \<Rightarrow> nat" where
  "lowerUnit c = (if isUpper c then c + 32 else c)"

definition upperUnit :: "nat \<Rightarrow> nat" where
  "upperUnit c = (if isLower c then c - 32 else c)"

text \<open>
  \<open>toLowerCase\<close> maps the ASCII letters; the Unicode case tables for code units from
  128 on are not part of the repository, and those code units are left as they are. On a
  string with a letter beyond ASCII (the Kelvin sign U+212A, which the host lowers to
  \<open>k\<close>) the host may give another string; every string that is evaluated below is
  ASCII.
\<close>

definition toLowerCase :: "jsstring \<Rightarrow> jsstring" where
  "toLowerCase s = map lowerUnit s"

definition slice :: "jsstring \<Rightarrow> nat \<Rightarrow> nat \<Rightarrow> jsstring" where
  \<comment> \<open>\<open>s.slice(a, b)\<close> for \<open>0 \<le> a\<close>; both ends are clamped to the length\<close>
  "slice s a b = take (b - a) (drop a s)"

definition substr :: "jsstring \<Rightarrow> nat \<Rightarrow> nat \<Rightarrow> jsstring" where
  \<comment> \<open>\<open>s.substr(i, n)\<close> for \<open>0 \<le> i\<close>\<close>
  "substr s i n = take n (drop i s)"

definition startsWith :: "jsstring \<Rightarrow> jsstring \<Rightarrow> bool" where
  "startsWith s p = (take (length p) s = p)"

fun includesStr :: "jsstring \<Rightarrow> jsstring \<Rightarrow> bool" where
  \<comment> \<open>\<open>s.includes(p)\<close>: \<open>p\<close> occurs at some position of \<open>s\<close>\<close>
  "includesStr [] p = (p = [])"
| "includesStr (c # cs) p = (startsWith (c # cs) p \<or> includesStr cs p)"

fun search :: "(jsstring \<Rightarrow> bool) \<Rightarrow> jsstring \<Rightarrow> bool" where
  \<comment> \<open>an unanchored regular expression: \<open>m\<close> says whether it matches at the start of
      the rest of the string, and every start position is tried\<close>
  "search m [] = m []"
| "search m (c # cs) = (m (c # cs) \<or> search m cs)"

subsection \<open>Common passwords\<close>

definition commonPasswords :: "jsstring set" where
  "commonPasswords = set (map str
    [''123456'',''123456789'',''password'',''12345678'',''qwerty'',''12345'',''1234567890'',''1234567'',''qwerty123'',
     ''1q2w3e'',''111111'',''123123'',''abc123'',''password1'',''iloveyou'',''admin'',''welcome'',''monkey'',''dragon'',
     ''passw0rd'',''letmein'',''baseball'',''football'',''shadow'',''master'',''killer'',''superman'',''login'',''flower'',
     ''hottie'',''loveme'',''zaq1zaq1'',''password123'',''zaq12wsx'',''qazwsx'',''trustno1'',''starwars'',''654321'',
     ''batman'',''zaq1@WSX'',''mustang'',''michael'',''pokemon'',''computer'',''internet'',''hello'',''freedom'',''whatever'',
     ''qwertyuiop'',''1qaz2wsx'',''dragon123'',''password!'',''summer'',''donald'',''football1'',''princess'',''azerty'',
     ''pass'',''pass1234'',''qwe123'',''1234'',''1q2w3e4r'',''555555'',''loveyou'',''123qwe'',''passwords'',''welcome1'',
     ''11111111'',''987654321'',''121212'',''000000'',''qwerty1'',''1q2w3e4'',''00000000'',''ashley'',''fluffy'',''mynoob'',
     ''superman1'',''charlie'',''andrew'',''letmein1'',''monkey123'',''hello123'',''trustno1'',''123321'',''654321'',''!@#$%^'',
     ''password1!'',''zaq!@WSX'',''1qaz2wsx3edc'',''football123'',''qwertyui'',''qwer1234'',''welcome123'',''loveme123'',
     ''1q2w3e4r5t'',''!@#$'',''marina'',''hannah'',''michael1'',''nicole'',''jessica'',''daniel'',''jordan'',''hunter'',
     ''buster'',''soccer'',''killer123'',''passw0rd1'',''steven'',''tigger'',''bailey'',''pepper'',''gregory'',''summer123'',
     ''1qazxsw2'',''flower123'',''147258369'',''mypass'',''mypassword'',''q1w2e3r4'',''trustno1!'',''cookie'',''computer1'',
     ''qweasd'',''asdfgh'',''asdf1234'',''zxcvbnm'',''zxcvbn'',''zaq12swx'',''159753'',''159357'',''aa123456'',''qweqwe'',
     ''monkey1'',''shadow1'',''iloveyou1'',''123abc'',''password1234'',''abc123456'',''qazwsxedc'',''1qaz2wsx3'',''love''])"

definition commonPasswordCheck :: "jsstring \<Rightarrow> bool" where
  "commonPasswordCheck p = (toLowerCase p \<in> commonPasswords)"

subsection \<open>Sequential characters\<close>

function isConsecutive_from :: "jsstring \<Rightarrow> nat \<Rightarrow> bool" where
  \<comment> \<open>the loop of \<open>isConsecutive\<close> from index \<open>i\<close> on; \<open>chunk ! k\<close> is \<open>chunk.charCodeAt(k)\<close>\<close>
  "isConsecutive_from chunk i =
     (if i < length chunk
      then (if chunk ! i \<noteq> chunk ! (i - 1) + 1 then False
            else isConsecutive_from chunk (i + 1))
      else True)"
  by pat_completeness auto
termination
  by (relation "measure (\<lambda>(chunk, i). length chunk - i)") auto

definition isConsecutive :: "jsstring \<Rightarrow> bool" where
  "isConsecutive chunk = isConsecutive_from chunk 1"

function isSequential_from :: "jsstring \<Rightarrow> nat \<Rightarrow> bool" where
  \<comment> \<open>the loop of \<open>isSequential\<close> from index \<open>i\<close> on; \<open>lower.length - 3\<close> may be negative\<close>
  "isSequential_from lower i =
     (if int i < int (length lower) - 3
      then (if isConsecutive (slice lower i (i + 4)) then True
            else isSequential_from lower (i + 1))
      else False)"
  by pat_completeness auto
termination
  by (relation "measure (\<lambda>(lower, i). length lower - i)") auto

definition isSequential :: "jsstring \<Rightarrow> bool" where
  "isSequential s = isSequential_from (toLowerCase s) 0"

subsection \<open>Repeated characters and substrings\<close>

definition isLineTerminator :: "nat \<Rightarrow> bool" where
  \<comment> \<open>the code units that \<open>.\<close> does not match: LF, CR, U+2028, U+2029\<close>
  "isLineTerminator c = (c = 10 \<or> c = 13 \<or> c = 8232 \<or> c = 8233)"

fun fourRepeats :: "jsstring \<Rightarrow> bool" where
  \<comment> \<open>\<open>(.)\1{3,}\<close> at the start of the string: a code unit that is not a line terminator,
      then itself at least three more times\<close>
  "fourRepeats (a # b # c # d # _) = (\<not> isLineTerminator a \<and> b = a \<and> c = a \<and> d = a)"
| "fourRepeats _ = False"

function isRepeatedChars_inner :: "jsstring \<Rightarrow> nat \<Rightarrow> nat \<Rightarrow> bool" where
  \<comment> \<open>the inner loop, from index \<open>i\<close> on; \<open>s.length - size*2\<close> may be negative\<close>
  "isRepeatedChars_inner s sz i =
     (if int i \<le> int (length s) - int sz * 2
      then (if substr s i sz = substr s (i + sz) sz then True
            else isRepeatedChars_inner s sz (i + 1))
      else False)"
  by pat_completeness auto
termination
  by (relation "measure (\<lambda>(s, sz, i). Suc (length s) - i)") auto

function isRepeatedChars_outer :: "jsstring \<Rightarrow> nat \<Rightarrow> bool" where
  \<comment> \<open>the outer loop, from \<open>size\<close> on; \<open>True\<close> is the \<open>return true\<close> of the inner loop\<close>
  "isRepeatedChars_outer s sz =
     (if sz \<le> length s div 2
      then (if isRepeatedChars_inner s sz 0 then True
            else isRepeatedChars_outer s (sz + 1))
      else False)"
  by pat_completeness auto
termination
  by (relation "measure (\<lambda>(s, sz). Suc (length s div 2) - sz)") auto

definition isRepeatedChars :: "jsstring \<Rightarrow> bool" where
  "isRepeatedChars s = (if search fourRepeats s then True else isRepeatedChars_outer s 2)"

subsection \<open>Keyboard patterns, years, e-mail and user names\<close>

definition patterns :: "jsstring list" where
  "patterns = map str [''qwerty'',''asdfgh'',''zxcvbn'',''1q2w'',''qaz'',''wasd'',''qwert'',''passw'',
     ''!@#'',''$%^'',''123qwe'']"

definition isKeyboardPattern :: "jsstring \<Rightarrow> bool" where
  "isKeyboardPattern s = (let lower = toLowerCase s in list_ex (\<lambda>p. includesStr lower p) patterns)"

fun yearAt :: "jsstring \<Rightarrow> bool" where
  \<comment> \<open>\<open>(19\d{2}|20[0-2]\d)\<close> at the start of the string\<close>
  "yearAt (a # b # c # d # _) =
     ((a = 49 \<and> b = 57 \<and> isDigit c \<and> isDigit d)
      \<or> (a = 50 \<and> b = 48 \<and> (48 \<le> c \<and> c \<le> 50) \<and> isDigit d))"
| "yearAt _ = False"

definition containsYear :: "jsstring \<Rightarrow> bool" where
  "containsYear s = search yearAt s"

fun twoDigits :: "jsstring \<Rightarrow> bool" where
  \<comment> \<open>\<open>\d{2,}\<close> at the start of the string\<close>
  "twoDigits (a # b # _) = (isDigit a \<and> isDigit b)"
| "twoDigits _ = False"

fun lettersThenDigits :: "jsstring \<Rightarrow> bool" where
  \<comment> \<open>\<open>[a-z]+\d{2,}\<close> with the flag \<open>i\<close> at the start of the string: a letter of either
      case, then the digits or the rest of the letters\<close>
  "lettersThenDigits [] = False"
| "lettersThenDigits (c # cs) =
     ((isLower c \<or> isUpper c) \<and> (twoDigits cs \<or> lettersThenDigits cs))"

definition looksLikeEmailOrUsername :: "jsstring \<Rightarrow> bool" where
  "looksLikeEmailOrUsername s =
     (if includesStr s (str ''@'') then True
      else if search lettersThenDigits s then True
      else False)"

section \<open>Numbers and the host\<close>

text \<open>
  The values that \<open>parseInt(x, 10) || 0\<close> takes: a double that is an integer, or an
  infinity. \<open>NaN\<close> is \<open>None\<close> where it can occur.
\<close>

datatype number = Num int | Infinity | NegInfinity

definition positive :: "number \<Rightarrow> bool" where
  \<comment> \<open>\<open>n > 0\<close>\<close>
  "positive n = (case n of Num k \<Rightarrow> k > 0 | Infinity \<Rightarrow> True | NegInfinity \<Rightarrow> False)"

text \<open>
  Two operations of the host that the breach lookup calls are not part of the repository:
  \<open>String.prototype.toUpperCase\<close>, which works with the Unicode case tables, and the
  last step of \<open>parseInt\<close>, which gives the Number for an integer (the nearest double,
  which the host may approximate for more than 20 digits). They are parameters of the
  model: what is stated with a host \<open>h\<close> holds for every host, or for every host with
  the properties that the statement assumes.
\<close>

record host =
  host_toUpperCase :: "jsstring \<Rightarrow> jsstring"
  host_toNumber :: "int \<Rightarrow> number"

section \<open>Flags and the adjusted score\<close>

datatype severity = Danger | Warn | Info

datatype detail = Fixed string | BreachTimes number
  \<comment> \<open>\<open>BreachTimes n\<close> is the text \<open>This password appears in public breaches (n times)\<close>\<close>

text \<open>The fields \<open>t\<close>, \<open>s\<close> and \<open>detail\<close> of a flag object.\<close>

record flag =
  flag_t :: string
  flag_s :: severity
  flag_detail :: detail

definition push :: "'a list \<Rightarrow> 'a \<Rightarrow> 'a list" where
  "push xs x = xs @ [x]"

definition unshift :: "'a list \<Rightarrow> 'a \<Rightarrow> 'a list" where
  "unshift xs x = x # xs"

definition commonFlag :: flag where
  "commonFlag = \<lparr>flag_t = ''Common password'', flag_s = Danger,
     flag_detail = Fixed ''Matches a commonly used password list''\<rparr>"

definition sequentialFlag :: flag where
  "sequentialFlag = \<lparr>flag_t = ''Sequential characters'', flag_s = Warn,
     flag_detail = Fixed ''Contains sequential characters like 1234 or abcd''\<rparr>"

definition repeatedFlag :: flag where
  "repeatedFlag = \<lparr>flag_t = ''Repeated characters'', flag_s = Warn,
     flag_detail = Fixed ''Contains repeated characters or repeated substrings''\<rparr>"

definition keyboardFlag :: flag where
  "keyboardFlag = \<lparr>flag_t = ''Keyboard pattern'', flag_s = Warn,
     flag_detail = Fixed ''Contains keyboard sequences like qwerty or asdf''\<rparr>"

definition yearFlag :: flag where
  "yearFlag = \<lparr>flag_t = ''Year detected'', flag_s = Info,
     flag_detail = Fixed ''Contains a year (e.g., 1990, 2023). Avoid using birth years''\<rparr>"

definition emailFlag :: flag where
  "emailFlag = \<lparr>flag_t = ''Email/username pattern'', flag_s = Info,
     flag_detail = Fixed ''Looks like an email/username pattern. Avoid reuse across accounts''\<rparr>"

definition breachFlag :: "number \<Rightarrow> flag" where
  "breachFlag pwnCount = \<lparr>flag_t = ''Found in breaches'', flag_s = Danger,
     flag_detail = BreachTimes pwnCount\<rparr>"

definition patternFlags :: "jsstring \<Rightarrow> flag list" where
  \<comment> \<open>step 4 of \<open>onInput\<close>, lines 66--72\<close>
  "patternFlags v =
     (let flags0 = [];
          flags1 = (if commonPasswordCheck v then push flags0 commonFlag else flags0);
          flags2 = (if isSequential v then push flags1 sequentialFlag else flags1);
          flags3 = (if isRepeatedChars v then push flags2 repeatedFlag else flags2);
          flags4 = (if isKeyboardPattern v then push flags3 keyboardFlag else flags3);
          flags5 = (if containsYear v then push flags4 yearFlag else flags4);
          flags6 = (if looksLikeEmailOrUsername v then push flags5 emailFlag else flags5)
      in flags6)"

definition adjustScore :: "int \<Rightarrow> flag list \<Rightarrow> int" where
  \<comment> \<open>step 5 of \<open>onInput\<close>, lines 75--77\<close>
  "adjustScore baseScore flags =
     (if list_ex (\<lambda>f. flag_s f = Danger) flags then max 0 (baseScore - 2)
      else if length flags \<noteq> 0 then max 0 (baseScore - 1)
      else baseScore)"

definition adjustedScore :: "jsstring \<Rightarrow> int" where
  "adjustedScore v = adjustScore (computeScore v) (patternFlags v)"

section \<open>The page\<close>

datatype colour = Bad | Amber | Good
  \<comment> \<open>the custom properties \<open>--bad\<close>, \<open>--warn\<close>, \<open>--good\<close> or their fallbacks\<close>

datatype pwned = Dash | Checking | FoundIn number | NotFound | Unavailable
  \<comment> \<open>the texts written to \<open>pwnedEl\<close>; its colour is set together with the text\<close>

record dom =
  sha1El :: "jsstring option"
  pwnedEl :: pwned
  entropyEl :: "real option"
  suggestionsEl :: "string list"
  flagsEl :: "flag list"
  fill_score :: int
  fill_background :: colour
  strength_text :: string

text \<open>
  \<open>None\<close> in \<open>sha1El\<close> and \<open>entropyEl\<close> is the dash. \<open>fill_score\<close> is the score that
  the width of the meter, \<open>(score/5) * 100\<close> percent, is computed from. \<open>flagsEl\<close> holds the
  flags that \<open>renderFlags\<close> was last called with.
\<close>

definition labels :: "string list" where
  "labels = [''Very Weak'', ''Weak'', ''Medium'', ''Strong'', ''Very Strong'']"

definition strengthLabel :: "int \<Rightarrow> string" where
  \<comment> \<open>\<open>labels[Math.max(0,score-1)] || labels[0]\<close>: outside the array the read is undefined\<close>
  "strengthLabel score =
     (let i = max 0 (score - 1)
      in if i < int (length labels) then labels ! nat i else labels ! 0)"

definition tipsFor :: "jsstring \<Rightarrow> string list" where
  "tipsFor password =
     (let tips0 = [];
          tips1 = (if length password < 12
                   then push tips0 ''Increase length to at least 12+ characters.'' else tips0);
          tips2 = (if \<not> test isUpper password
                   then push tips1 ''Add an uppercase letter (A-Z).'' else tips1);
          tips3 = (if \<not> test isLower password
                   then push tips2 ''Add a lowercase letter (a-z).'' else tips2);
          tips4 = (if \<not> test isDigit password
                   then push tips3 ''Include numbers (0-9).'' else tips3);
          tips5 = (if \<not> test isSymbol password
                   then push tips4 ''Add special characters like @, #, %, !.'' else tips4)
      in tips5)"

definition updateStrengthUI :: "int \<Rightarrow> jsstring \<Rightarrow> dom \<Rightarrow> dom" where
  "updateStrengthUI score password d =
     d\<lparr>fill_score := score,
       fill_background := (if score \<le> 1 then Bad else if score = 2 then Amber else Good),
       strength_text := ''Strength: '' @ strengthLabel score,
       suggestionsEl := (let tips = tipsFor password
                         in if length tips \<noteq> 0 then tips else [''Your password looks strong!''])\<rparr>"

definition renderFlags :: "flag list \<Rightarrow> dom \<Rightarrow> dom" where
  "renderFlags flags d = d\<lparr>flagsEl := flags\<rparr>"

definition clearUIIfEmpty :: "jsstring \<Rightarrow> dom \<Rightarrow> dom" where
  "clearUIIfEmpty v d =
     (if v = []
      then updateStrengthUI 0 []
             (d\<lparr>sha1El := None, pwnedEl := Dash, entropyEl := None,
                suggestionsEl := [], flagsEl := []\<rparr>)
      else d)"

section \<open>The breach lookup\<close>

text \<open>
  \<open>fetch\<close> and \<open>res.text()\<close> are the network: what they give is an input of the model.
  \<open>FetchRejected\<close> is a rejected \<open>fetch\<close>; \<open>FetchResponse status body\<close> is a response
  with that status, whose \<open>text()\<close> gives \<open>Some\<close> body or is rejected (\<open>None\<close>).
\<close>

datatype fetch_result = FetchRejected | FetchResponse nat "jsstring option"

datatype error = RequestFailed nat | NetworkError
  \<comment> \<open>\<open>RequestFailed status\<close> is the \<open>Error('HIBP request failed: ' + res.status)\<close> thrown by
      \<open>checkPwned\<close>; \<open>NetworkError\<close> is the rejection of \<open>fetch\<close> or \<open>text\<close>\<close>

definition ok :: "nat \<Rightarrow> bool" where
  \<comment> \<open>\<open>res.ok\<close>: the status is in the range 200--299\<close>
  "ok status = (200 \<le> status \<and> status \<le> 299)"

fun split :: "nat \<Rightarrow> jsstring \<Rightarrow> jsstring list" where
  \<comment> \<open>\<open>s.split(sep)\<close> for a separator of one code unit\<close>
  "split sep [] = [[]]"
| "split sep (c # cs) =
     (if c = sep then [] # split sep cs
      else (case split sep cs of [] \<Rightarrow> [[c]] | x # xs \<Rightarrow> (c # x) # xs))"

definition isWhiteSpace :: "nat \<Rightarrow> bool" where
  \<comment> \<open>white space and line terminators of ECMAScript, as \<open>trim\<close> and \<open>parseInt\<close> strip them\<close>
  "isWhiteSpace c =
     (c = 9 \<or> c = 10 \<or> c = 11 \<or> c = 12 \<or> c = 13 \<or> c = 32 \<or> c = 160 \<or> c = 5760
      \<or> (8192 \<le> c \<and> c \<le> 8202) \<or> c = 8232 \<or> c = 8233 \<or> c = 8239 \<or> c = 8287
      \<or> c = 12288 \<or> c = 65279)"

definition trim :: "jsstring \<Rightarrow> jsstring" where
  "trim s = rev (dropWhile isWhiteSpace (rev (dropWhile isWhiteSpace s)))"

definition digitsValue :: "jsstring \<Rightarrow> int" where
  "digitsValue ds = foldl (\<lambda>n c. 10 * n + (int c - 48)) 0 ds"

definition parseInt :: "host \<Rightarrow> jsstring option \<Rightarrow> number option" where
  \<comment> \<open>\<open>parseInt(x, 10)\<close>; \<open>None\<close> as argument is \<open>undefined\<close>, \<open>None\<close> as result is \<open>NaN\<close>.
      The host gives the Number for the signed value of the digits.\<close>
  "parseInt h x =
     (case x of
        None \<Rightarrow> None
      | Some text \<Rightarrow>
          (let t = dropWhile isWhiteSpace text;
               sign = (case t of c # _ \<Rightarrow> if c = 45 then - 1 else 1 | [] \<Rightarrow> 1);
               r = (case t of c # cs \<Rightarrow> if c = 45 \<or> c = 43 then cs else t | [] \<Rightarrow> []);
               ds = takeWhile isDigit r
           in if ds = [] then None else Some (host_toNumber h (sign * digitsValue ds))))"

definition orZero :: "number option \<Rightarrow> number" where
  \<comment> \<open>\<open>n || 0\<close>: \<open>NaN\<close> and zero are falsy\<close>
  "orZero n = (case n of None \<Rightarrow> Num 0 | Some k \<Rightarrow> if k = Num 0 then Num 0 else k)"

fun checkPwned_lines :: "host \<Rightarrow> jsstring \<Rightarrow> jsstring list \<Rightarrow> number" where
  \<comment> \<open>the \<open>for\<close> loop over the lines, and the \<open>return 0\<close> after it; a missing array
      element is \<open>undefined\<close>, which \<open>!hashSuffix\<close> skips like the empty string\<close>
  "checkPwned_lines h suffix [] = Num 0"
| "checkPwned_lines h suffix (line # rest) =
     (case split 58 (trim line) of
        [] \<Rightarrow> checkPwned_lines h suffix rest
      | hashSuffix # others \<Rightarrow>
          (let count = (case others of [] \<Rightarrow> None | c # _ \<Rightarrow> Some c)
           in if hashSuffix = [] then checkPwned_lines h suffix rest
              else if host_toUpperCase h hashSuffix = suffix then orZero (parseInt h count)
              else checkPwned_lines h suffix rest))"

definition checkPwned :: "host \<Rightarrow> jsstring \<Rightarrow> fetch_result \<Rightarrow> error + number" where
  \<comment> \<open>the request carries \<open>sha1.slice(0,5)\<close> only; \<open>res\<close> is what the network answers\<close>
  "checkPwned h sha1 res =
     (let suffix = drop 5 sha1
      in case res of
           FetchRejected \<Rightarrow> Inl NetworkError
         | FetchResponse status body \<Rightarrow>
             if \<not> ok status then Inl (RequestFailed status)
             else (case body of
                     None \<Rightarrow> Inl NetworkError
                   | Some text \<Rightarrow> Inr (checkPwned_lines h suffix (split 10 text))))"

section \<open>The input handler\<close>

text \<open>
  \<open>onInput\<close> is an \<open>async\<close> function: it runs to its first \<open>await\<close> (the digest), is
  resumed with the digest and runs to the second (the breach lookup), and is resumed with
  the outcome of the lookup. Between the parts other handlers may run. The local variables
  that live across the second \<open>await\<close> are kept in a record.
\<close>

record locals =
  loc_value :: jsstring
  loc_sha1 :: jsstring
  loc_flags :: "flag list"
  loc_adjustedScore :: int

definition onInput_hashed :: "jsstring \<Rightarrow> jsstring \<Rightarrow> dom \<Rightarrow> dom \<times> locals" where
  \<comment> \<open>lines 55--83, from the digest to the call of \<open>checkPwned\<close>\<close>
  "onInput_hashed v sha1 d =
     (let d1 = d\<lparr>sha1El := Some sha1\<rparr>;
          entropy = estimateEntropy v;
          d2 = d1\<lparr>entropyEl := Some (real_of_int (round (entropy * 10)) / 10)\<rparr>;
          baseScore = computeScore v;
          flags = patternFlags v;
          adjusted = adjustScore baseScore flags;
          d3 = updateStrengthUI adjusted v d2;
          d4 = renderFlags flags d3;
          d5 = d4\<lparr>pwnedEl := Checking\<rparr>
      in (d5, \<lparr>loc_value = v, loc_sha1 = sha1, loc_flags = flags, loc_adjustedScore = adjusted\<rparr>))"

definition onInput_fetched ::
  "host \<Rightarrow> locals \<Rightarrow> fetch_result \<Rightarrow> dom \<Rightarrow> dom \<times> locals" where
  \<comment> \<open>lines 84--103, from the outcome of the lookup to the end\<close>
  "onInput_fetched h l res d =
     (case checkPwned h (loc_sha1 l) res of
        Inl err \<Rightarrow> (d\<lparr>pwnedEl := Unavailable\<rparr>, l)
      | Inr pwnCount \<Rightarrow>
          if positive pwnCount
          then (let d1 = d\<lparr>pwnedEl := FoundIn pwnCount\<rparr>
                in if \<not> list_ex (\<lambda>f. flag_t f = ''Common password'') (loc_flags l)
                   then (let flags = unshift (loc_flags l) (breachFlag pwnCount);
                             d2 = renderFlags flags d1;
                             adjusted = max 0 (loc_adjustedScore l - 2);
                             d3 = updateStrengthUI adjusted (loc_value l) d2
                         in (d3, l\<lparr>loc_flags := flags, loc_adjustedScore := adjusted\<rparr>))
                   else (d1, l))
          else (d\<lparr>pwnedEl := NotFound\<rparr>, l))"

text \<open>
  The page and the calls of \<open>onInput\<close> that are suspended. A call is named by its number
  in the order of the input events.
\<close>

datatype call = AwaitHash jsstring | AwaitFetch locals | Returned locals | ReturnedEmpty

record state =
  page :: dom
  calls :: "call list"

datatype event =
    Input jsstring
  | HashResolved nat jsstring
  | FetchResolved nat fetch_result

fun step :: "host \<Rightarrow> state \<Rightarrow> event \<Rightarrow> state" where
  "step h st (Input v) =
     (let d = clearUIIfEmpty v (page st)
      in if v = [] then \<lparr>page = d, calls = calls st @ [ReturnedEmpty]\<rparr>
         else \<lparr>page = d, calls = calls st @ [AwaitHash v]\<rparr>)"
| "step h st (HashResolved k sha1) =
     (if k < length (calls st)
      then (case calls st ! k of
              AwaitHash v \<Rightarrow>
                (let (d, l) = onInput_hashed v sha1 (page st)
                 in \<lparr>page = d, calls = (calls st)[k := AwaitFetch l]\<rparr>)
            | _ \<Rightarrow> st)
      else st)"
| "step h st (FetchResolved k res) =
     (if k < length (calls st)
      then (case calls st ! k of
              AwaitFetch l \<Rightarrow>
                (let (d, l') = onInput_fetched h l res (page st)
                 in \<lparr>page = d, calls = (calls st)[k := Returned l']\<rparr>)
            | _ \<Rightarrow> st)
      else st)"

definition cleared :: dom where
  \<comment> \<open>the page as \<open>clearUIIfEmpty\<close> leaves it for the empty input\<close>
  "cleared = updateStrengthUI 0 []
     \<lparr>sha1El = None, pwnedEl = Dash, entropyEl = None, suggestionsEl = [], flagsEl = [],
      fill_score = 0, fill_background = Bad, strength_text = []\<rparr>"

definition run :: "host \<Rightarrow> event list \<Rightarrow> state" where
  "run h evs = foldl (step h) \<lparr>page = cleared, calls = []\<rparr> evs"

section \<open>The repeated-characters predicate, as the specification words it\<close>

definition repeated_spec :: "jsstring \<Rightarrow> bool" where
  \<comment> \<open>some character occurs \<open>n \<ge> 4\<close> times in a row from a position \<open>i\<close>, or for a length
      \<open>k\<close> from 2 to half the length the \<open>k\<close> characters from some position \<open>i\<close> are the
      \<open>k\<close> characters that follow them\<close>
  "repeated_spec p =
     ((\<exists>i \<in> {0..<length p}. \<exists>n \<in> {4..length p - i}.
          take n (drop i p) = replicate n (p ! i))
      \<or> (\<exists>k \<in> {2..length p div 2}. \<exists>i \<in> {0..length p - 2 * k}.
          take k (drop i p) = take k (drop (i + k) p)))"

section \<open>The breach lookup, as the specification words it\<close>










section \<open>Example data\<close>

text \<open>
  A host for the examples. Its \<open>toUpperCase\<close> maps the ASCII letters and the ligature
  U+FB00, which becomes \<open>FF\<close>, as the Unicode tables have them; the examples use no other
  code unit that has an uppercase form. Its Number for an integer is the nearest double,
  ties to even, and an infinity from \<open>2^1024\<close> on.
\<close>

definition upperUnits :: "nat \<Rightarrow> jsstring" where
  "upperUnits c = (if c = 64256 then [70, 70] else [upperUnit c])"

definition example_toUpperCase :: "jsstring \<Rightarrow> jsstring" where
  "example_toUpperCase s = concat (map upperUnits s)"

fun bitlen :: "nat \<Rightarrow> nat" where
  \<comment> \<open>the number of binary digits\<close>
  "bitlen n = (if n = 0 then 0 else Suc (bitlen (n div 2)))"

definition nearestDouble :: "nat \<Rightarrow> number" where
  \<comment> \<open>53 significant binary digits are kept; the rest is rounded, ties to even\<close>
  "nearestDouble m =
     (if m < 2 ^ 53 then Num (int m)
      else (let e = bitlen m - 53;
                q = m div 2 ^ e;
                r = m mod 2 ^ e;
                half = 2 ^ (e - 1);
                q' = (if r > half \<or> (r = half \<and> odd q) then q + 1 else q)
            in if q' * 2 ^ e \<ge> 2 ^ 1024 then Infinity else Num (int (q' * 2 ^ e))))"

definition example_toNumber :: "int \<Rightarrow> number" where
  "example_toNumber k =
     (if k < 0
      then (case nearestDouble (nat (- k)) of
              Num j \<Rightarrow> Num (- j) | Infinity \<Rightarrow> NegInfinity | NegInfinity \<Rightarrow> Infinity)
      else nearestDouble (nat k))"

definition example_host :: host where
  "example_host =
     \<lparr>host_toUpperCase = example_toUpperCase, host_toNumber = example_toNumber\<rparr>"


text \<open>
  The SHA-1 digests of two passwords, and response bodies of the range service as it
  sends them: lines \<open>SUFFIX:COUNT\<close> separated by CR LF.
\<close>

definition sha1_Summer2024 :: jsstring where
  "sha1_Summer2024 = str ''6EA164759ADCCDF0B63C3E6A8A52792691F4C37B''"

definition sha1_qwerty123 :: jsstring where
  "sha1_qwerty123 = str ''5CEC175B165E3D5E62C9E13CE848EF6FEAC81BFF''"

definition body_Summer2024 :: jsstring where
  "body_Summer2024 =
     str ''003D68EB55068C33ACE09247EE4C639306B:3'' @ [13, 10]
   @ str ''4759ADCCDF0B63C3E6A8A52792691F4C37B:37'' @ [13, 10]
   @ str ''FFB6A1A4C4B4E2F1A5D2A0E5A1F1C3B2D4E:0''"

definition body_qwerty123 :: jsstring where
  "body_qwerty123 =
     str ''003D68EB55068C33ACE09247EE4C639306B:3'' @ [13, 10]
   @ str ''75B165E3D5E62C9E13CE848EF6FEAC81BFF:621679'' @ [13, 10]"

definition sha1_MyPassword :: jsstring where
  "sha1_MyPassword = str ''7577C5ADE52864985EFA016E1CF2EA6D95CC46D8''"





text \<open>
  Two inputs, of which the second arrives while the lookup of the first is under way:
  after these events the page shows the result of the second input, and the lookup of
  the first has not resolved. Then it does.
\<close>

definition superseded :: "event list" where
  "superseded =
     [Input (str ''Summer2024''), HashResolved 0 sha1_Summer2024,
      Input (str ''MyPassword!9''), HashResolved 1 sha1_MyPassword]"

definition late :: event where
  "late = FetchResolved 0 (FetchResponse 200 (Some body_Summer2024))"

section \<open>Properties of the base and adjusted score\<close>

lemma computeScore_count:
  "computeScore p = of_bool (length p \<ge> 8) + of_bool (test isLower p) + of_bool (test isUpper p)
     + of_bool (test isDigit p) + of_bool (test isSymbol p)"
  by (simp add: computeScore_def)

lemma computeScore_range: "0 \<le> computeScore p \<and> computeScore p \<le> 5"
  unfolding computeScore_count by (simp add: of_bool_def)

lemma adjustScore_le: "0 \<le> b \<Longrightarrow> 0 \<le> adjustScore b fl \<and> adjustScore b fl \<le> b"
  by (simp add: adjustScore_def)

lemmas class_defs = test_def isLower_def isUpper_def isDigit_def isSymbol_def

lemmas lower_defs = toLowerCase_def lowerUnit_def isUpper_def str_def

lemma Summer2024_flags: "patternFlags (str ''Summer2024'') = [yearFlag, emailFlag]"
proof -
  have "\<not> commonPasswordCheck (str ''Summer2024'')"
    by (simp add: commonPasswordCheck_def commonPasswords_def lower_defs)
  moreover have "\<not> isSequential (str ''Summer2024'')"
    by (simp add: isSequential_def lower_defs slice_def isConsecutive_def)
  moreover have "\<not> isRepeatedChars (str ''Summer2024'')"
    by (simp add: isRepeatedChars_def str_def substr_def)
  moreover have "\<not> isKeyboardPattern (str ''Summer2024'')"
    by (simp add: isKeyboardPattern_def patterns_def lower_defs startsWith_def)
  moreover have "containsYear (str ''Summer2024'')"
    by (simp add: containsYear_def str_def isDigit_def)
  moreover have "looksLikeEmailOrUsername (str ''Summer2024'')"
    by (simp add: looksLikeEmailOrUsername_def str_def isDigit_def isLower_def isUpper_def
        startsWith_def)
  ultimately show ?thesis
    by (simp add: patternFlags_def push_def)
qed

text \<open>
  C1. For every password the base score is the number of the five criteria it satisfies
  (length at least 8, a lowercase letter, an uppercase letter, a digit, a symbol); the
  adjusted score is the base score minus 2 when some flag has severity danger, else minus 1
  when there is a flag, else the base score, and never below 0; so
  \<open>0 \<le> adjusted \<le> base \<le> 5\<close>.
\<close>

theorem score_composition:
  "computeScore p =
       of_bool (length p \<ge> 8) + of_bool (\<exists>c \<in> set p. isLower c)
     + of_bool (\<exists>c \<in> set p. isUpper c) + of_bool (\<exists>c \<in> set p. isDigit c)
     + of_bool (\<exists>c \<in> set p. isSymbol c)
   \<and> adjustedScore p =
       (if \<exists>f \<in> set (patternFlags p). flag_s f = Danger then max 0 (computeScore p - 2)
        else if patternFlags p \<noteq> [] then max 0 (computeScore p - 1)
        else computeScore p)
   \<and> 0 \<le> adjustedScore p \<and> adjustedScore p \<le> computeScore p \<and> computeScore p \<le> 5"
proof -
  have a: "adjustedScore p =
       (if \<exists>f \<in> set (patternFlags p). flag_s f = Danger then max 0 (computeScore p - 2)
        else if patternFlags p \<noteq> [] then max 0 (computeScore p - 1)
        else computeScore p)"
    by (simp add: adjustedScore_def adjustScore_def list_ex_iff)
  have b: "0 \<le> adjustedScore p \<and> adjustedScore p \<le> computeScore p"
    unfolding adjustedScore_def using adjustScore_le computeScore_range by blast
  show ?thesis
    using a b computeScore_range [of p]
    by (simp add: computeScore_count test_def list_ex_iff)
qed

theorem score_composition_witness:
  "computeScore (str ''Summer2024'') = 4 \<and> adjustedScore (str ''Summer2024'') = 3
   \<and> 0 \<le> adjustedScore (str ''Summer2024'')
   \<and> adjustedScore (str ''Summer2024'') \<le> computeScore (str ''Summer2024'')
   \<and> computeScore (str ''Summer2024'') \<le> 5"
proof -
  have base: "computeScore (str ''Summer2024'') = 4"
    by (simp add: computeScore_def class_defs str_def)
  have "adjustedScore (str ''Summer2024'') = max 0 (computeScore (str ''Summer2024'') - 1)"
    using score_composition [of "str ''Summer2024''"]
    by (simp add: Summer2024_flags yearFlag_def emailFlag_def)
  with base show ?thesis by simp
qed

section \<open>Properties of the entropy estimate\<close>

lemma charsetSize_sum:
  "charsetSize p = (if test isLower p then 26 else 0) + (if test isUpper p then 26 else 0)
     + (if test isDigit p then 10 else 0) + (if test isSymbol p then 32 else 0)"
  by (simp add: charsetSize_def)

lemma class_cover: "isLower c \<or> isUpper c \<or> isDigit c \<or> isSymbol c"
  by (auto simp: isSymbol_def)

lemma charsetSize_zero_iff: "charsetSize p = 0 \<longleftrightarrow> p = []"
proof (cases p)
  case Nil
  then show ?thesis by (simp add: charsetSize_sum test_def)
next
  case (Cons c cs)
  have "test isLower p \<or> test isUpper p \<or> test isDigit p \<or> test isSymbol p"
    using class_cover [of c] Cons by (auto simp: test_def)
  then show ?thesis using Cons by (auto simp: charsetSize_sum)
qed

lemma charsetSize_ge: "charsetSize p \<noteq> 0 \<Longrightarrow> 10 \<le> charsetSize p"
  by (simp add: charsetSize_sum split: if_splits)

lemma estimateEntropy_pos: "p \<noteq> [] \<Longrightarrow> 0 < estimateEntropy p"
proof -
  assume ne: "p \<noteq> []"
  then have nz: "charsetSize p \<noteq> 0" by (simp add: charsetSize_zero_iff)
  then have "10 \<le> charsetSize p" by (rule charsetSize_ge)
  then have "1 < real (charsetSize p)" by simp
  then have "0 < log 2 (real (charsetSize p))" by simp
  moreover have "0 < real (length p)" using ne by simp
  ultimately show ?thesis using nz by (simp add: estimateEntropy_def)
qed

lemma estimateEntropy_unfold:
  "estimateEntropy p =
     (if charsetSize p = 0 then 0 else log 2 (real (charsetSize p)) * real (length p))"
  by (simp add: estimateEntropy_def)

lemma estimateEntropy_zero_iff: "estimateEntropy p = 0 \<longleftrightarrow> p = []"
proof (cases "p = []")
  case True
  then show ?thesis by (simp add: estimateEntropy_unfold charsetSize_zero_iff)
next
  case False
  then show ?thesis using estimateEntropy_pos [of p] by simp
qed

lemma estimateEntropy_nonneg: "0 \<le> estimateEntropy p"
proof (cases "p = []")
  case True
  then show ?thesis by (simp add: estimateEntropy_unfold charsetSize_zero_iff)
next
  case False
  then show ?thesis using estimateEntropy_pos [of p] by simp
qed

text \<open>
  C2. For every password the entropy estimate is \<open>log2(S) * length\<close>, where \<open>S\<close> adds 26
  for a lowercase letter, 26 for an uppercase letter, 10 for a digit and 32 for a character
  outside the alphanumerics, and 0 when \<open>S\<close> is 0; it is never negative, and it is 0 exactly
  for the empty password. The estimate is taken over the real numbers.
\<close>

theorem entropy_estimate:
  "charsetSize p =
       (if \<exists>c \<in> set p. isLower c then 26 else 0) + (if \<exists>c \<in> set p. isUpper c then 26 else 0)
     + (if \<exists>c \<in> set p. isDigit c then 10 else 0) + (if \<exists>c \<in> set p. isSymbol c then 32 else 0)
   \<and> estimateEntropy p =
       (if charsetSize p = 0 then 0 else log 2 (real (charsetSize p)) * real (length p))
   \<and> 0 \<le> estimateEntropy p \<and> (estimateEntropy p = 0 \<longleftrightarrow> p = [])"
proof -
  have "charsetSize p =
       (if \<exists>c \<in> set p. isLower c then 26 else 0) + (if \<exists>c \<in> set p. isUpper c then 26 else 0)
     + (if \<exists>c \<in> set p. isDigit c then 10 else 0) + (if \<exists>c \<in> set p. isSymbol c then 32 else 0)"
    by (simp add: charsetSize_sum test_def list_ex_iff)
  then show ?thesis
    using estimateEntropy_unfold [of p] estimateEntropy_nonneg [of p]
      estimateEntropy_zero_iff [of p]
    by blast
qed

theorem entropy_estimate_witness:
  "charsetSize (str ''Ab1'') = 62 \<and> estimateEntropy (str ''Ab1'') = log 2 62 * 3
   \<and> estimateEntropy (str ''Ab1'') \<noteq> 0 \<and> estimateEntropy [] = 0"
proof -
  have s: "charsetSize (str ''Ab1'') = 62"
    by (simp add: charsetSize_def test_def isLower_def isUpper_def isDigit_def isSymbol_def str_def)
  have n: "str ''Ab1'' \<noteq> []" by (simp add: str_def)
  have l: "length (str ''Ab1'') = 3" by (simp add: str_def)
  show ?thesis
    using entropy_estimate [of "str ''Ab1''"] entropy_estimate [of "[]"] s n l by simp
qed

section \<open>The scenario \<open>qwerty123\<close>\<close>

lemma qwerty123_flags:
  "patternFlags (str ''qwerty123'') = [commonFlag, keyboardFlag, emailFlag]"
proof -
  have "commonPasswordCheck (str ''qwerty123'')"
    by (simp add: commonPasswordCheck_def commonPasswords_def lower_defs)
  moreover have "\<not> isSequential (str ''qwerty123'')"
    by (simp add: isSequential_def lower_defs slice_def isConsecutive_def)
  moreover have "\<not> isRepeatedChars (str ''qwerty123'')"
    by (simp add: isRepeatedChars_def str_def substr_def)
  moreover have "isKeyboardPattern (str ''qwerty123'')"
    by (simp add: isKeyboardPattern_def patterns_def lower_defs startsWith_def)
  moreover have "\<not> containsYear (str ''qwerty123'')"
    by (simp add: containsYear_def str_def isDigit_def)
  moreover have "looksLikeEmailOrUsername (str ''qwerty123'')"
    by (simp add: looksLikeEmailOrUsername_def str_def isDigit_def isLower_def isUpper_def
        startsWith_def)
  ultimately show ?thesis
    by (simp add: patternFlags_def push_def)
qed

lemma qwerty123_base: "computeScore (str ''qwerty123'') = 3"
  by (simp add: computeScore_def class_defs str_def)

lemma qwerty123_adjusted: "adjustedScore (str ''qwerty123'') = 1"
  by (simp add: adjustedScore_def adjustScore_def qwerty123_flags qwerty123_base commonFlag_def)

lemma strengthLabel_values:
  "strengthLabel 0 = ''Very Weak''" "strengthLabel 1 = ''Very Weak''" "strengthLabel 2 = ''Weak''"
  "strengthLabel 3 = ''Medium''" "strengthLabel 4 = ''Strong''" "strengthLabel 5 = ''Very Strong''"
  by (simp_all add: strengthLabel_def labels_def)

text \<open>
  C6, as stated. For \<open>qwerty123\<close> the base score is not 4, the adjusted score is not 2 and
  the label is not Medium; nor is Medium the label of the score 2.
\<close>

theorem qwerty123_counterexample:
  "computeScore (str ''qwerty123'') \<noteq> 4 \<and> adjustedScore (str ''qwerty123'') \<noteq> 2
   \<and> strengthLabel (adjustedScore (str ''qwerty123'')) \<noteq> ''Medium''
   \<and> strengthLabel 2 \<noteq> ''Medium''"
  by (simp add: qwerty123_base qwerty123_adjusted strengthLabel_values)

text \<open>
  C6, amended. For \<open>qwerty123\<close>, which is in the set of common passwords, the flags
  include the keyboard pattern and the common password; the base score is 3 (length at
  least 8, a lowercase letter, a digit; no uppercase letter, no symbol), the danger penalty
  of 2 gives the adjusted score 1, and the label is Very Weak.
\<close>

theorem qwerty123_scenario:
  "str ''qwerty123'' \<in> commonPasswords
   \<and> keyboardFlag \<in> set (patternFlags (str ''qwerty123''))
   \<and> commonFlag \<in> set (patternFlags (str ''qwerty123''))
   \<and> length (str ''qwerty123'') \<ge> 8 \<and> test isLower (str ''qwerty123'')
   \<and> test isDigit (str ''qwerty123'') \<and> \<not> test isUpper (str ''qwerty123'')
   \<and> \<not> test isSymbol (str ''qwerty123'')
   \<and> computeScore (str ''qwerty123'') = 3
   \<and> adjustedScore (str ''qwerty123'') = max 0 (computeScore (str ''qwerty123'') - 2)
   \<and> adjustedScore (str ''qwerty123'') = 1
   \<and> strengthLabel (adjustedScore (str ''qwerty123'')) = ''Very Weak''
   \<and> strength_text (updateStrengthUI (adjustedScore (str ''qwerty123'')) (str ''qwerty123'') d)
       = ''Strength: Very Weak''"
proof -
  have "str ''qwerty123'' \<in> commonPasswords"
    by (simp add: commonPasswords_def str_def)
  moreover have "length (str ''qwerty123'') \<ge> 8 \<and> test isLower (str ''qwerty123'')
     \<and> test isDigit (str ''qwerty123'') \<and> \<not> test isUpper (str ''qwerty123'')
     \<and> \<not> test isSymbol (str ''qwerty123'')"
    by (simp add: class_defs str_def)
  ultimately show ?thesis
    by (simp add: qwerty123_flags qwerty123_base qwerty123_adjusted strengthLabel_values
        updateStrengthUI_def)
qed

section \<open>Properties of the flag list\<close>

lemma patternFlags_append:
  "patternFlags p =
     (if commonPasswordCheck p then [commonFlag] else [])
   @ (if isSequential p then [sequentialFlag] else [])
   @ (if isRepeatedChars p then [repeatedFlag] else [])
   @ (if isKeyboardPattern p then [keyboardFlag] else [])
   @ (if containsYear p then [yearFlag] else [])
   @ (if looksLikeEmailOrUsername p then [emailFlag] else [])"
  by (simp add: patternFlags_def push_def)

lemmas flag_defs = commonFlag_def sequentialFlag_def repeatedFlag_def keyboardFlag_def
  yearFlag_def emailFlag_def breachFlag_def

lemma flags_distinct:
  "distinct [commonFlag, sequentialFlag, repeatedFlag, keyboardFlag, yearFlag, emailFlag]"
  by (simp add: flag_defs)

text \<open>
  C7. For every password all six predicates are evaluated, and each one that holds
  contributes exactly one flag, of its fixed severity: the common password is danger; the
  sequential, repeated and keyboard flags are warn; the year and e-mail flags are info.
  There are no other flags in the list.
\<close>

theorem flags_exhaustive:
  "count_list (patternFlags p) commonFlag = of_bool (commonPasswordCheck p)
   \<and> count_list (patternFlags p) sequentialFlag = of_bool (isSequential p)
   \<and> count_list (patternFlags p) repeatedFlag = of_bool (isRepeatedChars p)
   \<and> count_list (patternFlags p) keyboardFlag = of_bool (isKeyboardPattern p)
   \<and> count_list (patternFlags p) yearFlag = of_bool (containsYear p)
   \<and> count_list (patternFlags p) emailFlag = of_bool (looksLikeEmailOrUsername p)
   \<and> length (patternFlags p) =
       of_bool (commonPasswordCheck p) + of_bool (isSequential p) + of_bool (isRepeatedChars p)
     + of_bool (isKeyboardPattern p) + of_bool (containsYear p)
     + of_bool (looksLikeEmailOrUsername p)
   \<and> flag_s commonFlag = Danger
   \<and> flag_s sequentialFlag = Warn \<and> flag_s repeatedFlag = Warn \<and> flag_s keyboardFlag = Warn
   \<and> flag_s yearFlag = Info \<and> flag_s emailFlag = Info"
proof -
  have "flag_s commonFlag = Danger
   \<and> flag_s sequentialFlag = Warn \<and> flag_s repeatedFlag = Warn \<and> flag_s keyboardFlag = Warn
   \<and> flag_s yearFlag = Info \<and> flag_s emailFlag = Info"
    by (simp add: flag_defs)
  moreover have "count_list (patternFlags p) commonFlag = of_bool (commonPasswordCheck p)"
    using flags_distinct by (simp add: patternFlags_append)
  moreover have "count_list (patternFlags p) sequentialFlag = of_bool (isSequential p)"
    using flags_distinct by (simp add: patternFlags_append)
  moreover have "count_list (patternFlags p) repeatedFlag = of_bool (isRepeatedChars p)"
    using flags_distinct by (simp add: patternFlags_append)
  moreover have "count_list (patternFlags p) keyboardFlag = of_bool (isKeyboardPattern p)"
    using flags_distinct by (simp add: patternFlags_append)
  moreover have "count_list (patternFlags p) yearFlag = of_bool (containsYear p)"
    using flags_distinct by (simp add: patternFlags_append)
  moreover have "count_list (patternFlags p) emailFlag = of_bool (looksLikeEmailOrUsername p)"
    using flags_distinct by (simp add: patternFlags_append)
  moreover have "length (patternFlags p) =
       of_bool (commonPasswordCheck p) + of_bool (isSequential p) + of_bool (isRepeatedChars p)
     + of_bool (isKeyboardPattern p) + of_bool (containsYear p)
     + of_bool (looksLikeEmailOrUsername p)"
    by (simp add: patternFlags_append)
  ultimately show ?thesis by blast
qed

theorem flags_exhaustive_witness:
  "count_list (patternFlags (str ''qwerty123'')) commonFlag = 1
   \<and> count_list (patternFlags (str ''qwerty123'')) keyboardFlag = 1
   \<and> count_list (patternFlags (str ''qwerty123'')) emailFlag = 1
   \<and> count_list (patternFlags (str ''qwerty123'')) yearFlag = 0
   \<and> length (patternFlags (str ''qwerty123'')) = 3"
proof -
  have "commonPasswordCheck (str ''qwerty123'') \<and> isKeyboardPattern (str ''qwerty123'')
     \<and> looksLikeEmailOrUsername (str ''qwerty123'') \<and> \<not> containsYear (str ''qwerty123'')
     \<and> \<not> isSequential (str ''qwerty123'') \<and> \<not> isRepeatedChars (str ''qwerty123'')"
    using qwerty123_flags flags_distinct unfolding patternFlags_append
    by (simp split: if_splits)
  then show ?thesis
    using flags_exhaustive [of "str ''qwerty123''"] by simp
qed

section \<open>Properties of the breach penalty\<close>

lemma onInput_fetched_found:
  assumes "checkPwned h (loc_sha1 l) res = Inr n" and "positive n"
  shows "onInput_fetched h l res d =
     (if \<not> list_ex (\<lambda>f. flag_t f = ''Common password'') (loc_flags l)
      then (updateStrengthUI (max 0 (loc_adjustedScore l - 2)) (loc_value l)
              (renderFlags (breachFlag n # loc_flags l) (d\<lparr>pwnedEl := FoundIn n\<rparr>)),
            l\<lparr>loc_flags := breachFlag n # loc_flags l,
              loc_adjustedScore := max 0 (loc_adjustedScore l - 2)\<rparr>)
      else (d\<lparr>pwnedEl := FoundIn n\<rparr>, l))"
  using assms by (simp add: onInput_fetched_def unshift_def Let_def)

lemma onInput_fetched_flags:
  "loc_flags (snd (onInput_fetched h l res d)) = loc_flags l
   \<or> (\<exists>n. loc_flags (snd (onInput_fetched h l res d)) = breachFlag n # loc_flags l
        \<and> \<not> list_ex (\<lambda>f. flag_t f = ''Common password'') (loc_flags l))"
  by (auto simp: onInput_fetched_def unshift_def Let_def split: sum.splits)

text \<open>
  C4. When the breach check resolves with a positive count: if no common-password flag is
  present, the flag Found in breaches, of severity danger, is put at the front of the flag
  list and the adjusted score goes down by a further 2, not below 0, and both are shown;
  if a common-password flag is present, the flag list and the adjusted score stay as they
  are, in the call and on the page. The flag is put in front exactly when no
  common-password flag is present.
\<close>

theorem breach_penalty:
  assumes "checkPwned h (loc_sha1 l) res = Inr n" and "positive n"
    and "onInput_fetched h l res d = (d', l')"
  shows "(\<not> (\<exists>f \<in> set (loc_flags l). flag_t f = ''Common password'') \<longrightarrow>
            loc_flags l' = breachFlag n # loc_flags l
          \<and> flag_t (breachFlag n) = ''Found in breaches'' \<and> flag_s (breachFlag n) = Danger
          \<and> loc_adjustedScore l' = max 0 (loc_adjustedScore l - 2)
          \<and> flagsEl d' = loc_flags l' \<and> fill_score d' = loc_adjustedScore l')
       \<and> ((\<exists>f \<in> set (loc_flags l). flag_t f = ''Common password'') \<longrightarrow>
            loc_flags l' = loc_flags l \<and> loc_adjustedScore l' = loc_adjustedScore l
          \<and> flagsEl d' = flagsEl d \<and> fill_score d' = fill_score d)
       \<and> (loc_flags l' = breachFlag n # loc_flags l
            \<longleftrightarrow> \<not> (\<exists>f \<in> set (loc_flags l). flag_t f = ''Common password''))
       \<and> pwnedEl d' = FoundIn n"
proof (cases "\<exists>f \<in> set (loc_flags l). flag_t f = ''Common password''")
  case True
  then have "list_ex (\<lambda>f. flag_t f = ''Common password'') (loc_flags l)"
    by (simp add: list_ex_iff)
  then have "d' = d\<lparr>pwnedEl := FoundIn n\<rparr> \<and> l' = l"
    using assms(3) unfolding onInput_fetched_found [OF assms(1,2)] by simp
  then show ?thesis using True by simp
next
  case False
  then have "\<not> list_ex (\<lambda>f. flag_t f = ''Common password'') (loc_flags l)"
    by (simp add: list_ex_iff)
  then have "d' = updateStrengthUI (max 0 (loc_adjustedScore l - 2)) (loc_value l)
                (renderFlags (breachFlag n # loc_flags l) (d\<lparr>pwnedEl := FoundIn n\<rparr>))
     \<and> l' = l\<lparr>loc_flags := breachFlag n # loc_flags l,
              loc_adjustedScore := max 0 (loc_adjustedScore l - 2)\<rparr>"
    using assms(3) unfolding onInput_fetched_found [OF assms(1,2)] by simp
  then show ?thesis
    using False by (simp add: updateStrengthUI_def renderFlags_def breachFlag_def)
qed

lemmas lookup_defs = checkPwned_def ok_def trim_def isWhiteSpace_def example_host_def
  example_toUpperCase_def upperUnits_def upperUnit_def isLower_def parseInt_def orZero_def
  digitsValue_def isDigit_def example_toNumber_def nearestDouble_def str_def

lemma checkPwned_Summer2024:
  "checkPwned example_host sha1_Summer2024 (FetchResponse 200 (Some body_Summer2024)) = Inr (Num 37)"
  by (simp add: sha1_Summer2024_def body_Summer2024_def lookup_defs)

lemma checkPwned_qwerty123:
  "checkPwned example_host sha1_qwerty123 (FetchResponse 200 (Some body_qwerty123)) = Inr (Num 621679)"
  by (simp add: sha1_qwerty123_def body_qwerty123_def lookup_defs)

lemma Summer2024_base: "computeScore (str ''Summer2024'') = 4"
  by (simp add: computeScore_def class_defs str_def)

lemma Summer2024_hashed:
  "snd (onInput_hashed (str ''Summer2024'') sha1_Summer2024 d) =
     \<lparr>loc_value = str ''Summer2024'', loc_sha1 = sha1_Summer2024,
      loc_flags = [yearFlag, emailFlag], loc_adjustedScore = 3\<rparr>"
  by (simp add: onInput_hashed_def Let_def Summer2024_flags Summer2024_base adjustScore_def
      flag_defs)

lemma qwerty123_hashed:
  "snd (onInput_hashed (str ''qwerty123'') sha1_qwerty123 d) =
     \<lparr>loc_value = str ''qwerty123'', loc_sha1 = sha1_qwerty123,
      loc_flags = [commonFlag, keyboardFlag, emailFlag], loc_adjustedScore = 1\<rparr>"
  by (simp add: onInput_hashed_def Let_def qwerty123_flags qwerty123_base adjustScore_def
      flag_defs)

theorem breach_penalty_witness:
  "loc_flags (snd (onInput_fetched example_host
       (snd (onInput_hashed (str ''Summer2024'') sha1_Summer2024 cleared))
       (FetchResponse 200 (Some body_Summer2024)) cleared))
     = [breachFlag (Num 37), yearFlag, emailFlag]
   \<and> loc_adjustedScore (snd (onInput_fetched example_host
       (snd (onInput_hashed (str ''Summer2024'') sha1_Summer2024 cleared))
       (FetchResponse 200 (Some body_Summer2024)) cleared)) = 1
   \<and> loc_flags (snd (onInput_fetched example_host
       (snd (onInput_hashed (str ''qwerty123'') sha1_qwerty123 cleared))
       (FetchResponse 200 (Some body_qwerty123)) cleared))
     = [commonFlag, keyboardFlag, emailFlag]
   \<and> loc_adjustedScore (snd (onInput_fetched example_host
       (snd (onInput_hashed (str ''qwerty123'') sha1_qwerty123 cleared))
       (FetchResponse 200 (Some body_qwerty123)) cleared)) = 1"
proof -
  let ?lS = "snd (onInput_hashed (str ''Summer2024'') sha1_Summer2024 cleared)"
  let ?rS = "FetchResponse 200 (Some body_Summer2024)"
  let ?lQ = "snd (onInput_hashed (str ''qwerty123'') sha1_qwerty123 cleared)"
  let ?rQ = "FetchResponse 200 (Some body_qwerty123)"
  have s1: "checkPwned example_host (loc_sha1 ?lS) ?rS = Inr (Num 37)"
    by (simp add: Summer2024_hashed checkPwned_Summer2024)
  have q1: "checkPwned example_host (loc_sha1 ?lQ) ?rQ = Inr (Num 621679)"
    by (simp add: qwerty123_hashed checkPwned_qwerty123)
  have s2: "\<not> (\<exists>f \<in> set (loc_flags ?lS). flag_t f = ''Common password'')"
    by (simp add: Summer2024_hashed flag_defs)
  have q2: "\<exists>f \<in> set (loc_flags ?lQ). flag_t f = ''Common password''"
    by (simp add: qwerty123_hashed flag_defs)
  have s3: "onInput_fetched example_host ?lS ?rS cleared =
     (fst (onInput_fetched example_host ?lS ?rS cleared), snd (onInput_fetched example_host ?lS ?rS cleared))"
    by simp
  have q3: "onInput_fetched example_host ?lQ ?rQ cleared =
     (fst (onInput_fetched example_host ?lQ ?rQ cleared), snd (onInput_fetched example_host ?lQ ?rQ cleared))"
    by simp
  have s4: "loc_flags (snd (onInput_fetched example_host ?lS ?rS cleared)) = breachFlag (Num 37) # loc_flags ?lS
     \<and> loc_adjustedScore (snd (onInput_fetched example_host ?lS ?rS cleared))
         = max 0 (loc_adjustedScore ?lS - 2)"
    using breach_penalty [OF s1 _ s3] s2 by (simp add: positive_def)
  have q4: "loc_flags (snd (onInput_fetched example_host ?lQ ?rQ cleared)) = loc_flags ?lQ
     \<and> loc_adjustedScore (snd (onInput_fetched example_host ?lQ ?rQ cleared)) = loc_adjustedScore ?lQ"
    using breach_penalty [OF q1 _ q3] q2 by (simp add: positive_def)
  show ?thesis
    using s4 q4 by (simp add: Summer2024_hashed qwerty123_hashed)
qed

section \<open>Order of the flags\<close>

lemma patternFlags_tl_no_danger: "f \<in> set (tl (patternFlags p)) \<Longrightarrow> flag_s f \<noteq> Danger"
  unfolding patternFlags_append
  by (cases "commonPasswordCheck p") (auto simp: flag_defs split: if_splits)

lemma patternFlags_danger_common:
  "f \<in> set (patternFlags p) \<Longrightarrow> flag_s f = Danger \<Longrightarrow> flag_t f = ''Common password''"
  unfolding patternFlags_append by (auto simp: flag_defs split: if_splits)

lemma danger_head:
  assumes "\<And>f. f \<in> set (tl fl) \<Longrightarrow> flag_s f \<noteq> Danger" and "\<exists>f \<in> set fl. flag_s f = Danger"
  shows "flag_s (hd fl) = Danger"
proof (cases fl)
  case Nil
  then show ?thesis using assms(2) by simp
next
  case (Cons a as)
  then show ?thesis using assms by auto
qed

lemma onInput_hashed_flags: "loc_flags (snd (onInput_hashed p sha1 d)) = patternFlags p"
  by (simp add: onInput_hashed_def Let_def)

lemma fetched_tl_no_danger:
  assumes "f \<in> set (tl (loc_flags (snd (onInput_fetched h (snd (onInput_hashed p sha1 d0)) res d))))"
  shows "flag_s f \<noteq> Danger"
proof -
  let ?l = "snd (onInput_hashed p sha1 d0)"
  from onInput_fetched_flags [of h ?l res d]
  show ?thesis
  proof
    assume "loc_flags (snd (onInput_fetched h ?l res d)) = loc_flags ?l"
    then show ?thesis
      using assms patternFlags_tl_no_danger [of f p] by (simp add: onInput_hashed_flags)
  next
    assume "\<exists>n. loc_flags (snd (onInput_fetched h ?l res d)) = breachFlag n # loc_flags ?l
        \<and> \<not> list_ex (\<lambda>f. flag_t f = ''Common password'') (loc_flags ?l)"
    then obtain n where n: "loc_flags (snd (onInput_fetched h ?l res d)) = breachFlag n # loc_flags ?l"
      and c: "\<not> list_ex (\<lambda>f. flag_t f = ''Common password'') (loc_flags ?l)"
      by blast
    from assms n have "f \<in> set (patternFlags p)" by (simp add: onInput_hashed_flags)
    moreover from c have "\<forall>g \<in> set (patternFlags p). flag_t g \<noteq> ''Common password''"
      by (simp add: list_ex_iff onInput_hashed_flags)
    ultimately show ?thesis using patternFlags_danger_common [of f p] by blast
  qed
qed

text \<open>
  C10. For every password the flags found locally are in the order common password,
  sequential, repeated, keyboard, year, e-mail, each one present only when its predicate
  holds; the outcome of the breach lookup leaves the flag list as it is or puts the breach
  flag in front of it. Hence, before and after the lookup, when some flag has severity
  danger, the first flag has it, and no later flag has.
\<close>

theorem danger_flag_first:
  "patternFlags p =
       (if commonPasswordCheck p then [commonFlag] else [])
     @ (if isSequential p then [sequentialFlag] else [])
     @ (if isRepeatedChars p then [repeatedFlag] else [])
     @ (if isKeyboardPattern p then [keyboardFlag] else [])
     @ (if containsYear p then [yearFlag] else [])
     @ (if looksLikeEmailOrUsername p then [emailFlag] else [])
   \<and> (loc_flags (snd (onInput_fetched h l res d)) = loc_flags l
        \<or> (\<exists>n. loc_flags (snd (onInput_fetched h l res d)) = breachFlag n # loc_flags l))
   \<and> ((\<exists>f \<in> set (patternFlags p). flag_s f = Danger) \<longrightarrow>
         flag_s (hd (patternFlags p)) = Danger
       \<and> (\<forall>f \<in> set (tl (patternFlags p)). flag_s f \<noteq> Danger))
   \<and> ((\<exists>f \<in> set (loc_flags (snd (onInput_fetched h (snd (onInput_hashed p sha1 d0)) res d))).
           flag_s f = Danger) \<longrightarrow>
         flag_s (hd (loc_flags (snd (onInput_fetched h (snd (onInput_hashed p sha1 d0)) res d))))
           = Danger
       \<and> (\<forall>f \<in> set (tl (loc_flags (snd (onInput_fetched h (snd (onInput_hashed p sha1 d0)) res d)))).
             flag_s f \<noteq> Danger))"
proof -
  have a: "loc_flags (snd (onInput_fetched h l res d)) = loc_flags l
        \<or> (\<exists>n. loc_flags (snd (onInput_fetched h l res d)) = breachFlag n # loc_flags l)"
    using onInput_fetched_flags [of h l res d] by blast
  have b: "(\<exists>f \<in> set (patternFlags p). flag_s f = Danger) \<longrightarrow>
         flag_s (hd (patternFlags p)) = Danger
       \<and> (\<forall>f \<in> set (tl (patternFlags p)). flag_s f \<noteq> Danger)"
    using danger_head [of "patternFlags p"] patternFlags_tl_no_danger [of _ p] by blast
  let ?fl = "loc_flags (snd (onInput_fetched h (snd (onInput_hashed p sha1 d0)) res d))"
  have c: "(\<exists>f \<in> set ?fl. flag_s f = Danger) \<longrightarrow>
         flag_s (hd ?fl) = Danger \<and> (\<forall>f \<in> set (tl ?fl). flag_s f \<noteq> Danger)"
    using danger_head [of ?fl] fetched_tl_no_danger [of _ h p sha1 d0 res d] by blast
  show ?thesis using patternFlags_append [of p] a b c by blast
qed

theorem danger_flag_first_witness:
  "flag_s (hd (patternFlags (str ''qwerty123''))) = Danger
   \<and> list_all (\<lambda>f. flag_s f \<noteq> Danger) (tl (patternFlags (str ''qwerty123'')))
   \<and> flag_s (hd (loc_flags (snd (onInput_fetched example_host
        (snd (onInput_hashed (str ''Summer2024'') sha1_Summer2024 cleared))
        (FetchResponse 200 (Some body_Summer2024)) cleared)))) = Danger
   \<and> list_all (\<lambda>f. flag_s f \<noteq> Danger) (tl (loc_flags (snd (onInput_fetched example_host
        (snd (onInput_hashed (str ''Summer2024'') sha1_Summer2024 cleared))
        (FetchResponse 200 (Some body_Summer2024)) cleared))))"
proof -
  let ?fl = "loc_flags (snd (onInput_fetched example_host
        (snd (onInput_hashed (str ''Summer2024'') sha1_Summer2024 cleared))
        (FetchResponse 200 (Some body_Summer2024)) cleared))"
  have q: "\<exists>f \<in> set (patternFlags (str ''qwerty123'')). flag_s f = Danger"
    by (simp add: qwerty123_flags flag_defs)
  have fl: "?fl = [breachFlag (Num 37), yearFlag, emailFlag]"
    by (simp add: Summer2024_hashed onInput_fetched_def checkPwned_Summer2024 unshift_def
        flag_defs Let_def positive_def)
  then have s: "\<exists>f \<in> set ?fl. flag_s f = Danger"
    by (simp add: flag_defs)
  have "flag_s (hd (patternFlags (str ''qwerty123''))) = Danger
     \<and> (\<forall>f \<in> set (tl (patternFlags (str ''qwerty123''))). flag_s f \<noteq> Danger)"
    using danger_flag_first [where p = "str ''qwerty123''"] q by blast
  moreover have "flag_s (hd ?fl) = Danger \<and> (\<forall>f \<in> set (tl ?fl). flag_s f \<noteq> Danger)"
    using danger_flag_first [where p = "str ''Summer2024''" and ?sha1.0 = sha1_Summer2024
        and h = example_host
        and ?d0.0 = cleared and res = "FetchResponse 200 (Some body_Summer2024)"
        and d = cleared] s by blast
  ultimately show ?thesis
    unfolding list_all_iff by blast
qed

section \<open>The keyboard patterns\<close>

lemma startsWith_append: "startsWith (p @ b) p"
  by (simp add: startsWith_def)

lemma includesStr_startsWith: "startsWith s p \<Longrightarrow> includesStr s p"
  by (cases s) (simp_all add: startsWith_def)

lemma includesStr_here: "includesStr (p @ b) p"
  by (rule includesStr_startsWith) (rule startsWith_append)

lemma includesStr_append: "includesStr (a @ p @ b) p"
proof (induction a)
  case Nil
  show ?case using includesStr_here by simp
next
  case (Cons c a)
  then show ?case by simp
qed

lemma includesStr_iff: "includesStr s p \<longleftrightarrow> (\<exists>a b. s = a @ p @ b)"
proof
  show "includesStr s p \<Longrightarrow> \<exists>a b. s = a @ p @ b"
  proof (induction s)
    case Nil
    then show ?case by simp
  next
    case (Cons c cs)
    from Cons.prems have "startsWith (c # cs) p \<or> includesStr cs p" by simp
    then show ?case
    proof
      assume "startsWith (c # cs) p"
      then have "c # cs = [] @ p @ drop (length p) (c # cs)"
        unfolding startsWith_def by (metis append_Nil append_take_drop_id)
      then show ?thesis by blast
    next
      assume "includesStr cs p"
      then obtain a b where "cs = a @ p @ b" using Cons.IH by blast
      then have "c # cs = (c # a) @ p @ b" by simp
      then show ?thesis by blast
    qed
  qed
next
  show "\<exists>a b. s = a @ p @ b \<Longrightarrow> includesStr s p"
    using includesStr_append by blast
qed

lemma MyPassword_flags: "patternFlags (str ''MyPassword!9'') = [keyboardFlag]"
proof -
  have "\<not> commonPasswordCheck (str ''MyPassword!9'')"
    by (simp add: commonPasswordCheck_def commonPasswords_def lower_defs)
  moreover have "\<not> isSequential (str ''MyPassword!9'')"
    by (simp add: isSequential_def lower_defs slice_def isConsecutive_def)
  moreover have "\<not> isRepeatedChars (str ''MyPassword!9'')"
    by (simp add: isRepeatedChars_def str_def substr_def)
  moreover have "isKeyboardPattern (str ''MyPassword!9'')"
    by (simp add: isKeyboardPattern_def patterns_def lower_defs startsWith_def)
  moreover have "\<not> containsYear (str ''MyPassword!9'')"
    by (simp add: containsYear_def str_def isDigit_def)
  moreover have "\<not> looksLikeEmailOrUsername (str ''MyPassword!9'')"
    by (simp add: looksLikeEmailOrUsername_def str_def isDigit_def isLower_def isUpper_def
        startsWith_def)
  ultimately show ?thesis
    by (simp add: patternFlags_def push_def)
qed

text \<open>
  C9. The list of keyboard patterns has \<open>passw\<close>, \<open>qaz\<close> and \<open>wasd\<close> in it; so every
  password with a substring that is \<open>passw\<close> up to the case of its letters is a keyboard
  pattern and gets the Keyboard pattern flag, of severity warn.
\<close>

theorem passw_is_keyboard_pattern:
  assumes "s = a @ u @ b" and "toLowerCase u = str ''passw''"
  shows "str ''passw'' \<in> set patterns \<and> str ''qaz'' \<in> set patterns \<and> str ''wasd'' \<in> set patterns
     \<and> isKeyboardPattern s \<and> keyboardFlag \<in> set (patternFlags s)
     \<and> flag_t keyboardFlag = ''Keyboard pattern'' \<and> flag_s keyboardFlag = Warn"
proof -
  have p: "str ''passw'' \<in> set patterns \<and> str ''qaz'' \<in> set patterns \<and> str ''wasd'' \<in> set patterns"
    by (simp add: patterns_def str_def)
  have "toLowerCase s = toLowerCase a @ str ''passw'' @ toLowerCase b"
    using assms by (simp add: toLowerCase_def)
  then have "includesStr (toLowerCase s) (str ''passw'')"
    by (simp add: includesStr_append)
  with p have k: "isKeyboardPattern s"
    unfolding isKeyboardPattern_def Let_def list_ex_iff by blast
  then have "keyboardFlag \<in> set (patternFlags s)"
    by (simp add: patternFlags_append)
  with p k show ?thesis by (simp add: keyboardFlag_def)
qed

theorem passw_is_keyboard_pattern_witness:
  "isKeyboardPattern (str ''MyPassword!9'')
   \<and> keyboardFlag \<in> set (patternFlags (str ''MyPassword!9''))
   \<and> flag_s keyboardFlag = Warn
   \<and> patternFlags (str ''MyPassword!9'') = [keyboardFlag]"
proof -
  have "str ''MyPassword!9'' = str ''My'' @ str ''Passw'' @ str ''ord!9''"
    by (simp add: str_def)
  moreover have "toLowerCase (str ''Passw'') = str ''passw''"
    by (simp add: lower_defs)
  ultimately show ?thesis
    using passw_is_keyboard_pattern [of "str ''MyPassword!9''" "str ''My''" "str ''Passw''"
        "str ''ord!9''"] MyPassword_flags
    by blast
qed

section \<open>The repeated-characters predicate\<close>

lemma inner_unfold:
  "isRepeatedChars_inner s sz i =
     (int i \<le> int (length s) - int sz * 2
      \<and> (substr s i sz = substr s (i + sz) sz \<or> isRepeatedChars_inner s sz (i + 1)))"
  by (subst isRepeatedChars_inner.simps) (simp del: isRepeatedChars_inner.simps)

lemma outer_unfold:
  "isRepeatedChars_outer s sz =
     (sz \<le> length s div 2
      \<and> (isRepeatedChars_inner s sz 0 \<or> isRepeatedChars_outer s (sz + 1)))"
  by (subst isRepeatedChars_outer.simps)
    (simp del: isRepeatedChars_outer.simps isRepeatedChars_inner.simps)

lemma next_index:
  "\<not> P i \<Longrightarrow> (\<exists>j. i + 1 \<le> j \<and> P j) \<longleftrightarrow> (\<exists>j. (i::nat) \<le> j \<and> P j)"
  by (metis Suc_eq_plus1 Suc_leD Suc_leI le_neq_implies_less)

lemma inner_iff:
  "isRepeatedChars_inner s k i \<longleftrightarrow>
     (\<exists>j. i \<le> j \<and> j + 2 * k \<le> length s \<and> substr s j k = substr s (j + k) k)"
proof (induction s k i rule: isRepeatedChars_inner.induct)
  case (1 s sz i)
  show ?case
  proof (cases "int i \<le> int (length s) - int sz * 2")
    case False
    then have "\<not> isRepeatedChars_inner s sz i"
      using inner_unfold [of s sz i] by blast
    moreover have "\<not> (\<exists>j. i \<le> j \<and> j + 2 * sz \<le> length s \<and> substr s j sz = substr s (j + sz) sz)"
      using False by auto
    ultimately show ?thesis by blast
  next
    case in_range: True
    show ?thesis
    proof (cases "substr s i sz = substr s (i + sz) sz")
      case True
      then have "isRepeatedChars_inner s sz i"
        using in_range inner_unfold [of s sz i] by blast
      moreover have "i + 2 * sz \<le> length s" using in_range by linarith
      ultimately show ?thesis using True by blast
    next
      case False
      then have "isRepeatedChars_inner s sz i = isRepeatedChars_inner s sz (i + 1)"
        using in_range inner_unfold [of s sz i] by blast
      also have "\<dots> \<longleftrightarrow> (\<exists>j. i + 1 \<le> j \<and> j + 2 * sz \<le> length s
          \<and> substr s j sz = substr s (j + sz) sz)"
        using "1.IH" [OF in_range False] .
      also have "\<dots> \<longleftrightarrow> (\<exists>j. i \<le> j \<and> j + 2 * sz \<le> length s
          \<and> substr s j sz = substr s (j + sz) sz)"
        using False
        by (intro next_index [where P = "\<lambda>j. j + 2 * sz \<le> length s
              \<and> substr s j sz = substr s (j + sz) sz"]) blast
      finally show ?thesis .
    qed
  qed
qed

lemma outer_iff:
  "isRepeatedChars_outer s k \<longleftrightarrow>
     (\<exists>k'. k \<le> k' \<and> k' \<le> length s div 2 \<and> isRepeatedChars_inner s k' 0)"
proof (induction s k rule: isRepeatedChars_outer.induct)
  case (1 s sz)
  show ?case
  proof (cases "sz \<le> length s div 2")
    case False
    then have "\<not> isRepeatedChars_outer s sz"
      using outer_unfold [of s sz] by blast
    then show ?thesis using False by auto
  next
    case in_range: True
    show ?thesis
    proof (cases "isRepeatedChars_inner s sz 0")
      case True
      then have "isRepeatedChars_outer s sz"
        using in_range outer_unfold [of s sz] by blast
      then show ?thesis using True in_range by blast
    next
      case False
      then have "isRepeatedChars_outer s sz = isRepeatedChars_outer s (sz + 1)"
        using in_range outer_unfold [of s sz] by blast
      also have "\<dots> \<longleftrightarrow> (\<exists>k'. sz + 1 \<le> k' \<and> k' \<le> length s div 2
          \<and> isRepeatedChars_inner s k' 0)"
        using "1.IH" [OF in_range False] .
      also have "\<dots> \<longleftrightarrow> (\<exists>k'. sz \<le> k' \<and> k' \<le> length s div 2
          \<and> isRepeatedChars_inner s k' 0)"
        using False
        by (intro next_index [where P = "\<lambda>k'. k' \<le> length s div 2
              \<and> isRepeatedChars_inner s k' 0"]) blast
      finally show ?thesis .
    qed
  qed
qed

lemma search_iff: "search m s \<longleftrightarrow> (\<exists>i \<le> length s. m (drop i s))"
proof (induction s)
  case Nil
  show ?case by simp
next
  case (Cons c cs)
  have "(\<exists>i \<le> length (c # cs). m (drop i (c # cs)))
      \<longleftrightarrow> m (c # cs) \<or> (\<exists>i \<le> length cs. m (drop i cs))"
  proof
    assume "\<exists>i \<le> length (c # cs). m (drop i (c # cs))"
    then obtain i where i: "i \<le> length (c # cs)" "m (drop i (c # cs))" by blast
    show "m (c # cs) \<or> (\<exists>i \<le> length cs. m (drop i cs))"
    proof (cases i)
      case 0
      then show ?thesis using i by simp
    next
      case (Suc j)
      then show ?thesis using i by auto
    qed
  next
    assume "m (c # cs) \<or> (\<exists>i \<le> length cs. m (drop i cs))"
    then show "\<exists>i \<le> length (c # cs). m (drop i (c # cs))"
    proof
      assume "m (c # cs)"
      then have "m (drop 0 (c # cs))" by simp
      then show ?thesis by blast
    next
      assume "\<exists>i \<le> length cs. m (drop i cs)"
      then obtain i where "i \<le> length cs" "m (drop i cs)" by blast
      then have "Suc i \<le> length (c # cs) \<and> m (drop (Suc i) (c # cs))" by simp
      then show ?thesis by blast
    qed
  qed
  then show ?case using Cons.IH by simp
qed

lemma loops_iff:
  "isRepeatedChars_outer s 2 \<longleftrightarrow>
     (\<exists>k i. 2 \<le> k \<and> k \<le> length s div 2 \<and> i + 2 * k \<le> length s
        \<and> take k (drop i s) = take k (drop (i + k) s))"
proof -
  have "isRepeatedChars_outer s 2 \<longleftrightarrow>
     (\<exists>k. 2 \<le> k \<and> k \<le> length s div 2
        \<and> (\<exists>i. 0 \<le> i \<and> i + 2 * k \<le> length s \<and> substr s i k = substr s (i + k) k))"
    unfolding outer_iff inner_iff ..
  then show ?thesis unfolding substr_def by blast
qed

lemma spec_substrings_iff:
  "(\<exists>k \<in> {2..length p div 2}. \<exists>i \<in> {0..length p - 2 * k}.
        take k (drop i p) = take k (drop (i + k) p))
   \<longleftrightarrow> (\<exists>k i. 2 \<le> k \<and> k \<le> length p div 2 \<and> i + 2 * k \<le> length p
        \<and> take k (drop i p) = take k (drop (i + k) p))"
proof
  assume "\<exists>k \<in> {2..length p div 2}. \<exists>i \<in> {0..length p - 2 * k}.
        take k (drop i p) = take k (drop (i + k) p)"
  then obtain k i where k: "2 \<le> k" "k \<le> length p div 2" and i: "i \<le> length p - 2 * k"
    and e: "take k (drop i p) = take k (drop (i + k) p)"
    by auto
  from k have "2 * k \<le> length p" by linarith
  with i have "i + 2 * k \<le> length p" by linarith
  with k e show "\<exists>k i. 2 \<le> k \<and> k \<le> length p div 2 \<and> i + 2 * k \<le> length p
        \<and> take k (drop i p) = take k (drop (i + k) p)"
    by blast
next
  assume "\<exists>k i. 2 \<le> k \<and> k \<le> length p div 2 \<and> i + 2 * k \<le> length p
        \<and> take k (drop i p) = take k (drop (i + k) p)"
  then obtain k i where k: "2 \<le> k" "k \<le> length p div 2" and i: "i + 2 * k \<le> length p"
    and e: "take k (drop i p) = take k (drop (i + k) p)"
    by blast
  from i have "i \<in> {0..length p - 2 * k}" by simp
  moreover from k have "k \<in> {2..length p div 2}" by simp
  ultimately show "\<exists>k \<in> {2..length p div 2}. \<exists>i \<in> {0..length p - 2 * k}.
        take k (drop i p) = take k (drop (i + k) p)"
    using e by blast
qed

lemma run_gives_substrings:
  assumes "4 \<le> n" and "i + n \<le> length p" and "take n (drop i p) = replicate n c"
  shows "isRepeatedChars_outer p 2"
proof -
  have four: "take 4 (drop i p) = replicate 4 c"
  proof -
    have "take 4 (drop i p) = take 4 (take n (drop i p))" using assms(1) by (simp add: min_def)
    also have "\<dots> = replicate 4 c" using assms(1,3) by (simp add: min_def)
    finally show ?thesis .
  qed
  have "take 2 (drop i p) = take 2 (take 4 (drop i p))" by (simp add: min_def)
  then have a: "take 2 (drop i p) = replicate 2 c" using four by (simp add: min_def)
  have "take 2 (drop (i + 2) p) = drop 2 (take 4 (drop i p))"
    by (simp add: drop_take add.commute)
  then have b: "take 2 (drop (i + 2) p) = replicate 2 c" using four by simp
  have "(2::nat) \<le> length p div 2" and "i + 2 * 2 \<le> length p" using assms(1,2) by linarith+
  then have "2 \<le> (2::nat) \<and> 2 \<le> length p div 2 \<and> i + 2 * 2 \<le> length p
      \<and> take 2 (drop i p) = take 2 (drop (i + 2) p)"
    using a b by simp
  then show ?thesis
    unfolding loops_iff by blast
qed

lemma fourRepeats_run:
  assumes "fourRepeats (drop i p)"
  shows "i + 4 \<le> length p \<and> take 4 (drop i p) = replicate 4 (p ! i)"
proof -
  from assms obtain a rest where d: "drop i p = a # a # a # a # rest"
    by (cases "drop i p" rule: fourRepeats.cases) auto
  then have "length (drop i p) \<ge> 4" by simp
  then have len: "i + 4 \<le> length p" by simp
  then have "p ! i = hd (drop i p)" by (simp add: hd_drop_conv_nth)
  with d have "p ! i = a" by simp
  with d len show ?thesis by (simp add: numeral_eq_Suc)
qed

lemma isRepeatedChars_unfold:
  "isRepeatedChars s = (search fourRepeats s \<or> isRepeatedChars_outer s 2)"
  by (simp add: isRepeatedChars_def del: isRepeatedChars_outer.simps)

text \<open>
  C8. For every password the repeated-characters predicate holds exactly when some
  character occurs 4 or more times in a row, or, for some length \<open>k\<close> from 2 to half the
  length of the password, two adjacent substrings of length \<open>k\<close> that do not overlap are
  the same.
\<close>

theorem isRepeatedChars_spec: "isRepeatedChars p \<longleftrightarrow> repeated_spec p"
proof
  assume "isRepeatedChars p"
  then have "search fourRepeats p \<or> isRepeatedChars_outer p 2"
    unfolding isRepeatedChars_unfold by blast
  then show "repeated_spec p"
  proof
    assume "search fourRepeats p"
    then obtain i where "fourRepeats (drop i p)" unfolding search_iff by blast
    then have "i + 4 \<le> length p \<and> take 4 (drop i p) = replicate 4 (p ! i)"
      by (rule fourRepeats_run)
    then have "i \<in> {0..<length p} \<and> 4 \<in> {4..length p - i}
        \<and> take 4 (drop i p) = replicate 4 (p ! i)"
      by auto
    then show ?thesis unfolding repeated_spec_def by blast
  next
    assume "isRepeatedChars_outer p 2"
    then show ?thesis unfolding repeated_spec_def spec_substrings_iff loops_iff by blast
  qed
next
  assume "repeated_spec p"
  then have "(\<exists>i \<in> {0..<length p}. \<exists>n \<in> {4..length p - i}.
          take n (drop i p) = replicate n (p ! i)) \<or> isRepeatedChars_outer p 2"
    unfolding repeated_spec_def spec_substrings_iff loops_iff by blast
  then have "isRepeatedChars_outer p 2"
  proof
    assume "\<exists>i \<in> {0..<length p}. \<exists>n \<in> {4..length p - i}.
          take n (drop i p) = replicate n (p ! i)"
    then obtain i n where "4 \<le> n" "n \<le> length p - i" "i < length p"
      and r: "take n (drop i p) = replicate n (p ! i)"
      by auto
    then have "4 \<le> n" "i + n \<le> length p" by linarith+
    then show ?thesis using r by (rule run_gives_substrings)
  qed
  then show "isRepeatedChars p" unfolding isRepeatedChars_unfold by blast
qed

theorem isRepeatedChars_spec_witness:
  "isRepeatedChars (str ''xabab'') \<and> repeated_spec (str ''xabab'')
   \<and> isRepeatedChars [10, 10, 10, 10] \<and> repeated_spec [10, 10, 10, 10]
   \<and> \<not> isRepeatedChars (str ''aaab'') \<and> \<not> repeated_spec (str ''aaab'')"
proof -
  have "isRepeatedChars (str ''xabab'') \<and> isRepeatedChars [10, 10, 10, 10]
      \<and> \<not> isRepeatedChars (str ''aaab'')"
    by (simp add: isRepeatedChars_def str_def substr_def isLineTerminator_def)
  then show ?thesis
    using isRepeatedChars_spec [of "str ''xabab''"] isRepeatedChars_spec [of "[10, 10, 10, 10]"]
      isRepeatedChars_spec [of "str ''aaab''"]
    by blast
qed

section \<open>Properties of the breach lookup\<close>




















lemma onInput_fetched_status:
  "pwnedEl (fst (onInput_fetched h l res d)) =
     (case checkPwned h (loc_sha1 l) res of
        Inl e \<Rightarrow> Unavailable
      | Inr n \<Rightarrow> if positive n then FoundIn n else NotFound)"
  by (simp add: onInput_fetched_def Let_def updateStrengthUI_def renderFlags_def
      split: sum.splits)

















section \<open>A lookup that resolves after a newer input\<close>

lemma onInput_hashed_page:
  "sha1El (fst (onInput_hashed v sha1 d)) = Some sha1"
  "flagsEl (fst (onInput_hashed v sha1 d)) = patternFlags v"
  "fill_score (fst (onInput_hashed v sha1 d)) = adjustedScore v"
  "strength_text (fst (onInput_hashed v sha1 d)) = ''Strength: '' @ strengthLabel (adjustedScore v)"
  "pwnedEl (fst (onInput_hashed v sha1 d)) = Checking"
  by (simp_all add: onInput_hashed_def Let_def updateStrengthUI_def renderFlags_def
      adjustedScore_def)

lemma onInput_hashed_locals:
  "snd (onInput_hashed v sha1 d) =
     \<lparr>loc_value = v, loc_sha1 = sha1, loc_flags = patternFlags v,
      loc_adjustedScore = adjustedScore v\<rparr>"
  by (simp add: onInput_hashed_def Let_def adjustedScore_def)

lemma step_Input:
  "step h st (Input v) =
     \<lparr>page = clearUIIfEmpty v (page st),
      calls = calls st @ [if v = [] then ReturnedEmpty else AwaitHash v]\<rparr>"
  by (simp add: Let_def)

lemma step_HashResolved:
  assumes "k < length (calls st)" and "calls st ! k = AwaitHash v"
  shows "step h st (HashResolved k sha1) =
     \<lparr>page = fst (onInput_hashed v sha1 (page st)),
      calls = (calls st)[k := AwaitFetch (snd (onInput_hashed v sha1 (page st)))]\<rparr>"
  using assms by (simp add: case_prod_beta)

lemma step_FetchResolved:
  assumes "k < length (calls st)" and "calls st ! k = AwaitFetch l"
  shows "step h st (FetchResolved k res) =
     \<lparr>page = fst (onInput_fetched h l res (page st)),
      calls = (calls st)[k := Returned (snd (onInput_fetched h l res (page st)))]\<rparr>"
  using assms by (simp add: case_prod_beta)

lemma step_keeps:
  assumes "k < length (calls st)" and "calls st ! k = AwaitFetch l"
    and "\<And>r. ev \<noteq> FetchResolved k r"
  shows "k < length (calls (step h st ev)) \<and> calls (step h st ev) ! k = AwaitFetch l"
proof (cases ev)
  case (Input v)
  then show ?thesis using assms(1,2) by (simp add: Let_def nth_append)
next
  case (HashResolved j sha1)
  then show ?thesis
    using assms(1,2)
    by (cases "j = k") (auto simp: case_prod_beta split: call.splits)
next
  case (FetchResolved j r)
  then have "j \<noteq> k" using assms(3) by blast
  then show ?thesis
    using assms(1,2) FetchResolved by (auto simp: case_prod_beta split: call.splits)
qed

lemma foldl_step_keeps:
  assumes "k < length (calls st)" and "calls st ! k = AwaitFetch l"
    and "\<And>r. FetchResolved k r \<notin> set evs"
  shows "k < length (calls (foldl (step h) st evs))
     \<and> calls (foldl (step h) st evs) ! k = AwaitFetch l"
  using assms
proof (induction evs arbitrary: st)
  case Nil
  then show ?case by simp
next
  case (Cons ev evs)
  have "\<And>r. ev \<noteq> FetchResolved k r" using Cons.prems(3) by auto
  then have "k < length (calls (step h st ev)) \<and> calls (step h st ev) ! k = AwaitFetch l"
    using step_keeps Cons.prems(1,2) by blast
  moreover have "\<And>r. FetchResolved k r \<notin> set evs" using Cons.prems(3) by auto
  ultimately show ?case using Cons.IH [of "step h st ev"] by simp
qed

lemma started_lookup:
  assumes "P1 \<noteq> []" and "k = length (calls st0)"
  shows "k < length (calls (step h (step h st0 (Input P1)) (HashResolved k sha1)))
     \<and> calls (step h (step h st0 (Input P1)) (HashResolved k sha1)) ! k =
         AwaitFetch \<lparr>loc_value = P1, loc_sha1 = sha1, loc_flags = patternFlags P1,
           loc_adjustedScore = adjustedScore P1\<rparr>"
proof -
  let ?st = "step h st0 (Input P1)"
  have c: "calls ?st = calls st0 @ [AwaitHash P1]"
    using assms(1) by (simp add: step_Input)
  then have k: "k < length (calls ?st)" and a: "calls ?st ! k = AwaitHash P1"
    using assms(2) by simp_all
  show ?thesis
    unfolding step_HashResolved [OF k a] using k by (simp add: onInput_hashed_locals)
qed

lemma onInput_fetched_untouched:
  "sha1El (fst (onInput_fetched h l res d)) = sha1El d"
  "entropyEl (fst (onInput_fetched h l res d)) = entropyEl d"
  by (simp_all add: onInput_fetched_def Let_def updateStrengthUI_def renderFlags_def
      split: sum.splits)

lemma onInput_fetched_replaced:
  assumes "checkPwned h (loc_sha1 l) res = Inr n" and "positive n"
    and "\<not> (\<exists>f \<in> set (loc_flags l). flag_t f = ''Common password'')"
  shows "flagsEl (fst (onInput_fetched h l res d)) = breachFlag n # loc_flags l
     \<and> fill_score (fst (onInput_fetched h l res d)) = max 0 (loc_adjustedScore l - 2)"
  using assms unfolding onInput_fetched_found [OF assms(1,2)]
  by (simp add: list_ex_iff updateStrengthUI_def renderFlags_def)

lemma onInput_fetched_kept:
  assumes "\<not> (\<exists>n. checkPwned h (loc_sha1 l) res = Inr n \<and> positive n
      \<and> \<not> (\<exists>f \<in> set (loc_flags l). flag_t f = ''Common password''))"
  shows "flagsEl (fst (onInput_fetched h l res d)) = flagsEl d
     \<and> fill_score (fst (onInput_fetched h l res d)) = fill_score d
     \<and> strength_text (fst (onInput_fetched h l res d)) = strength_text d"
proof (cases "checkPwned h (loc_sha1 l) res")
  case (Inl e)
  then show ?thesis by (simp add: onInput_fetched_def)
next
  case (Inr n)
  show ?thesis
  proof (cases "positive n")
    case True
    then have "\<exists>f \<in> set (loc_flags l). flag_t f = ''Common password''"
      using assms Inr by blast
    then show ?thesis
      unfolding onInput_fetched_found [OF Inr True] by (simp add: list_ex_iff)
  next
    case False
    then show ?thesis using Inr by (simp add: onInput_fetched_def)
  qed
qed

lemma str_Nil_iff: "str cs = [] \<longleftrightarrow> cs = []"
  by (simp add: str_def)

lemma no_common_flag:
  "(\<exists>f \<in> set (patternFlags p). flag_t f = ''Common password'') \<longleftrightarrow> commonPasswordCheck p"
  unfolding patternFlags_append by (auto simp: flag_defs split: if_splits)

lemma superseded_state:
  "run example_host superseded =
     \<lparr>page = fst (onInput_hashed (str ''MyPassword!9'') sha1_MyPassword
               (fst (onInput_hashed (str ''Summer2024'') sha1_Summer2024 cleared))),
      calls = [AwaitFetch (snd (onInput_hashed (str ''Summer2024'') sha1_Summer2024 cleared)),
               AwaitFetch (snd (onInput_hashed (str ''MyPassword!9'') sha1_MyPassword
                 (fst (onInput_hashed (str ''Summer2024'') sha1_Summer2024 cleared))))]\<rparr>"
  by (simp add: run_def superseded_def Let_def clearUIIfEmpty_def str_Nil_iff case_prod_beta)

lemma superseded_late_page:
  "page (step example_host (run example_host superseded) late) =
     fst (onInput_fetched example_host (snd (onInput_hashed (str ''Summer2024'') sha1_Summer2024 cleared))
       (FetchResponse 200 (Some body_Summer2024)) (page (run example_host superseded)))"
  by (simp add: superseded_state late_def case_prod_beta)

lemma MyPassword_base: "computeScore (str ''MyPassword!9'') = 5"
  by (simp add: computeScore_def class_defs str_def)

lemma MyPassword_adjusted: "adjustedScore (str ''MyPassword!9'') = 4"
  by (simp add: adjustedScore_def adjustScore_def MyPassword_flags MyPassword_base flag_defs)

text \<open>
  C5, as stated. The first input is \<open>Summer2024\<close>, the second \<open>MyPassword!9\<close>. When the
  second result is on the page (its digest, its one flag, its score 4, the lookup under
  way), the lookup of the first input resolves with the count 37: the page then shows the
  flags and the score of the first input and its breach status, under the digest of the
  second.
\<close>

theorem superseded_counterexample:
  "sha1El (page (run example_host superseded)) = Some sha1_MyPassword
   \<and> flagsEl (page (run example_host superseded)) = [keyboardFlag]
   \<and> fill_score (page (run example_host superseded)) = 4
   \<and> pwnedEl (page (run example_host superseded)) = Checking
   \<and> sha1El (page (step example_host (run example_host superseded) late)) = Some sha1_MyPassword
   \<and> flagsEl (page (step example_host (run example_host superseded) late)) = [breachFlag (Num 37), yearFlag, emailFlag]
   \<and> fill_score (page (step example_host (run example_host superseded) late)) = 1
   \<and> pwnedEl (page (step example_host (run example_host superseded) late)) = FoundIn (Num 37)
   \<and> flagsEl (page (step example_host (run example_host superseded) late)) \<noteq> flagsEl (page (run example_host superseded))
   \<and> fill_score (page (step example_host (run example_host superseded) late)) \<noteq> fill_score (page (run example_host superseded))
   \<and> pwnedEl (page (step example_host (run example_host superseded) late)) \<noteq> pwnedEl (page (run example_host superseded))"
proof -
  let ?l = "snd (onInput_hashed (str ''Summer2024'') sha1_Summer2024 cleared)"
  let ?res = "FetchResponse 200 (Some body_Summer2024)"
  have before: "sha1El (page (run example_host superseded)) = Some sha1_MyPassword
     \<and> flagsEl (page (run example_host superseded)) = [keyboardFlag]
     \<and> fill_score (page (run example_host superseded)) = 4
     \<and> pwnedEl (page (run example_host superseded)) = Checking"
    by (simp add: superseded_state onInput_hashed_page MyPassword_flags MyPassword_adjusted)
  have c: "checkPwned example_host (loc_sha1 ?l) ?res = Inr (Num 37)"
    by (simp add: Summer2024_hashed checkPwned_Summer2024)
  have n: "\<not> (\<exists>f \<in> set (loc_flags ?l). flag_t f = ''Common password'')"
    by (simp add: Summer2024_hashed flag_defs)
  have "flagsEl (page (step example_host (run example_host superseded) late)) = breachFlag (Num 37) # loc_flags ?l
     \<and> fill_score (page (step example_host (run example_host superseded) late)) = max 0 (loc_adjustedScore ?l - 2)"
    unfolding superseded_late_page using onInput_fetched_replaced [OF c _ n]
    by (simp add: positive_def)
  then have after: "flagsEl (page (step example_host (run example_host superseded) late))
       = [breachFlag (Num 37), yearFlag, emailFlag]
     \<and> fill_score (page (step example_host (run example_host superseded) late)) = 1"
    by (simp add: Summer2024_hashed)
  have status: "pwnedEl (page (step example_host (run example_host superseded) late)) = FoundIn (Num 37)"
    unfolding superseded_late_page by (simp add: onInput_fetched_status c positive_def)
  have digest: "sha1El (page (step example_host (run example_host superseded) late)) = Some sha1_MyPassword"
    unfolding superseded_late_page using before by (simp add: onInput_fetched_untouched)
  show ?thesis
    using before after status digest by (simp add: flag_defs)
qed

text \<open>
  C5, amended. For every pair of inputs \<open>P1\<close> then \<open>P2\<close>: when the lookup of \<open>P1\<close>
  resolves after \<open>P2\<close> and whatever else has come in the meantime, its outcome is applied
  to the page as it then is. The digest and the entropy shown stay; the breach status
  becomes that of \<open>P1\<close>; with a positive count and \<open>P1\<close> not a common password, the flags
  and the score shown become those of \<open>P1\<close>, with the breach flag in front and 2 off the
  adjusted score, not below 0; in every other case the flags and the score shown stay.
\<close>

theorem late_resolution_applied:
  assumes "P1 \<noteq> []" and "k = length (calls st0)"
    and "\<And>r. FetchResolved k r \<notin> set evs"
    and "st = foldl (step h) st0 ([Input P1, HashResolved k sha1] @ evs)"
    and "st' = step h st (FetchResolved k res)"
  shows "sha1El (page st') = sha1El (page st) \<and> entropyEl (page st') = entropyEl (page st)
     \<and> pwnedEl (page st') =
         (case checkPwned h sha1 res of
            Inl e \<Rightarrow> Unavailable
          | Inr n \<Rightarrow> if positive n then FoundIn n else NotFound)
     \<and> (\<forall>n. checkPwned h sha1 res = Inr n \<and> positive n \<and> \<not> commonPasswordCheck P1 \<longrightarrow>
           flagsEl (page st') = breachFlag n # patternFlags P1
         \<and> fill_score (page st') = max 0 (adjustedScore P1 - 2))
     \<and> (\<not> (\<exists>n. checkPwned h sha1 res = Inr n \<and> positive n \<and> \<not> commonPasswordCheck P1) \<longrightarrow>
           flagsEl (page st') = flagsEl (page st) \<and> fill_score (page st') = fill_score (page st))"
proof -
  let ?l = "\<lparr>loc_value = P1, loc_sha1 = sha1, loc_flags = patternFlags P1,
           loc_adjustedScore = adjustedScore P1\<rparr>"
  let ?st2 = "step h (step h st0 (Input P1)) (HashResolved k sha1)"
  have st: "st = foldl (step h) ?st2 evs" using assms(4) by simp
  have "k < length (calls ?st2) \<and> calls ?st2 ! k = AwaitFetch ?l"
    using started_lookup [OF assms(1,2)] .
  then have k: "k < length (calls st)" and a: "calls st ! k = AwaitFetch ?l"
    unfolding st using foldl_step_keeps [where k = k and st = ?st2 and l = ?l and evs = evs and h = h] assms(3) by blast+
  have p: "page st' = fst (onInput_fetched h ?l res (page st))"
    unfolding assms(5) step_FetchResolved [OF k a] by simp
  have "sha1El (page st') = sha1El (page st) \<and> entropyEl (page st') = entropyEl (page st)"
    unfolding p by (simp add: onInput_fetched_untouched)
  moreover have "pwnedEl (page st') =
         (case checkPwned h sha1 res of
            Inl e \<Rightarrow> Unavailable
          | Inr n \<Rightarrow> if positive n then FoundIn n else NotFound)"
    unfolding p by (simp add: onInput_fetched_status)
  moreover have "\<forall>n. checkPwned h sha1 res = Inr n \<and> positive n \<and> \<not> commonPasswordCheck P1 \<longrightarrow>
           flagsEl (page st') = breachFlag n # patternFlags P1
         \<and> fill_score (page st') = max 0 (adjustedScore P1 - 2)"
    unfolding p using onInput_fetched_replaced [of h ?l res _ "page st"]
    by (simp add: no_common_flag)
  moreover have "\<not> (\<exists>n. checkPwned h sha1 res = Inr n \<and> positive n \<and> \<not> commonPasswordCheck P1) \<longrightarrow>
           flagsEl (page st') = flagsEl (page st) \<and> fill_score (page st') = fill_score (page st)"
    unfolding p using onInput_fetched_kept [of h ?l res "page st"]
    by (simp add: no_common_flag)
  ultimately show ?thesis by blast
qed

theorem late_resolution_applied_witness:
  "flagsEl (page (step example_host (run example_host superseded) late)) = breachFlag (Num 37) # patternFlags (str ''Summer2024'')
   \<and> fill_score (page (step example_host (run example_host superseded) late))
       = max 0 (adjustedScore (str ''Summer2024'') - 2)
   \<and> pwnedEl (page (step example_host (run example_host superseded) late)) = FoundIn (Num 37)
   \<and> entropyEl (page (step example_host (run example_host superseded) late)) = entropyEl (page (run example_host superseded))"
proof -
  have a: "str ''Summer2024'' \<noteq> []" by (simp add: str_Nil_iff)
  have b: "(0::nat) = length (calls \<lparr>page = cleared, calls = []\<rparr>)" by simp
  have c: "\<And>r. FetchResolved 0 r \<notin> set [Input (str ''MyPassword!9''),
      HashResolved 1 sha1_MyPassword]"
    by simp
  have d: "run example_host superseded = foldl (step example_host) \<lparr>page = cleared, calls = []\<rparr>
      ([Input (str ''Summer2024''), HashResolved 0 sha1_Summer2024]
       @ [Input (str ''MyPassword!9''), HashResolved 1 sha1_MyPassword])"
    by (simp add: run_def superseded_def)
  have e: "step example_host (run example_host superseded) late =
      step example_host (run example_host superseded) (FetchResolved 0 (FetchResponse 200 (Some body_Summer2024)))"
    by (simp add: late_def)
  have f: "\<not> commonPasswordCheck (str ''Summer2024'')"
    using no_common_flag [of "str ''Summer2024''"] by (simp add: Summer2024_flags flag_defs)
  show ?thesis
    using late_resolution_applied [OF a b c d e] f checkPwned_Summer2024
    by (simp add: positive_def)
qed

end
